theory Spec2Isabelle
  imports Complex_Main
begin

section \<open>Ichimoku Cloud indicator: data model\<close>

text \<open>
  The development follows \<^verbatim>\<open>src/extension/indicator/ichimokuCloud.ts\<close>.
  JavaScript numbers that hold prices and pixel coordinates are modelled as reals
  (finite values only; \<^verbatim>\<open>NaN\<close> and rounding are outside the model), numbers
  that hold periods, the displacement and array indices as integers.
\<close>

text \<open>The fields of a bar that the indicator reads.\<close>

record KLineData =
  high :: real
  low :: real
  close :: real

text \<open>One output record; an absent property is \<open>None\<close>.\<close>

record IchimokuCloud =
  tenkan :: "real option"
  kijun :: "real option"
  chikou :: "real option"
  senkou1 :: "real option"
  senkou2 :: "real option"

text \<open>The record written by \<^verbatim>\<open>result.push({})\<close>.\<close>

definition emptyPoint :: IchimokuCloud where
  "emptyPoint = \<lparr>tenkan = None, kijun = None, chikou = None, senkou1 = None, senkou2 = None\<rparr>"

text \<open>
  \<^verbatim>\<open>indicator.calcParams\<close>, read at positions 0 to 3 into the four names below.
  The code takes any numbers there and never tests that they are whole; the model covers
  the whole-number values only, so nothing below speaks of a fractional period or
  displacement.
\<close>

record calcParams =
  tenkanPeriod :: int
  kijunPeriod :: int
  senkouBPeriod :: int
  displacement :: int

text \<open>
  The only failure the code can raise: reading or writing a property of
  \<^verbatim>\<open>undefined\<close>, which is what an array read outside its range gives.
\<close>

datatype error = TypeError

text \<open>An array read \<^verbatim>\<open>xs[k]\<close>: \<open>None\<close> stands for \<^verbatim>\<open>undefined\<close>.\<close>

definition item_at :: "'a list \<Rightarrow> int \<Rightarrow> 'a option" where
  "item_at xs k = (if 0 \<le> k \<and> k < int (length xs) then Some (xs ! nat k) else None)"

section \<open>Windowed extrema\<close>

function getHighest_loop :: "KLineData list \<Rightarrow> int \<Rightarrow> int \<Rightarrow> real \<Rightarrow> error + real" where
  "getHighest_loop dataList i endIndex highest =
     (if i \<le> endIndex then
        (case item_at dataList i of
           None \<Rightarrow> Inl TypeError
         | Some d \<Rightarrow>
             getHighest_loop dataList (i + 1) endIndex
               (if high d > highest then high d else highest))
      else Inr highest)"
  by pat_completeness auto
termination
  by (relation "measure (\<lambda>(dataList, i, endIndex, highest). nat (endIndex + 1 - i))") auto

declare getHighest_loop.simps [simp del]

definition getHighest :: "KLineData list \<Rightarrow> int \<Rightarrow> int \<Rightarrow> error + real" where
  "getHighest dataList endIndex period =
     (let startIndex = max 0 (endIndex - period + 1) in
      case item_at dataList startIndex of
        None \<Rightarrow> Inl TypeError
      | Some d \<Rightarrow> getHighest_loop dataList (startIndex + 1) endIndex (high d))"

function getLowest_loop :: "KLineData list \<Rightarrow> int \<Rightarrow> int \<Rightarrow> real \<Rightarrow> error + real" where
  "getLowest_loop dataList i endIndex lowest =
     (if i \<le> endIndex then
        (case item_at dataList i of
           None \<Rightarrow> Inl TypeError
         | Some d \<Rightarrow>
             getLowest_loop dataList (i + 1) endIndex
               (if low d < lowest then low d else lowest))
      else Inr lowest)"
  by pat_completeness auto
termination
  by (relation "measure (\<lambda>(dataList, i, endIndex, lowest). nat (endIndex + 1 - i))") auto

declare getLowest_loop.simps [simp del]

definition getLowest :: "KLineData list \<Rightarrow> int \<Rightarrow> int \<Rightarrow> error + real" where
  "getLowest dataList endIndex period =
     (let startIndex = max 0 (endIndex - period + 1) in
      case item_at dataList startIndex of
        None \<Rightarrow> Inl TypeError
      | Some d \<Rightarrow> getLowest_loop dataList (startIndex + 1) endIndex (low d))"

section \<open>The calculator\<close>

text \<open>
  The two arrays \<^verbatim>\<open>calc\<close> can reach: the caller's bars and its own result.
  Every statement of the callback is a function from this state to an error or the
  next state, so that a write to either array would show.
\<close>

record calc_state =
  st_dataList :: "KLineData list"
  st_result :: "IchimokuCloud list"

definition bind_err :: "error + 'a \<Rightarrow> ('a \<Rightarrow> error + 'b) \<Rightarrow> error + 'b" where
  "bind_err m f = (case m of Inl e \<Rightarrow> Inl e | Inr v \<Rightarrow> f v)"

text \<open>
  The assignment \<^verbatim>\<open>result[k].field = v\<close>: a \<^verbatim>\<open>TypeError\<close> when
  \<^verbatim>\<open>result[k]\<close> is \<^verbatim>\<open>undefined\<close>.
\<close>

definition assign :: "calc_state \<Rightarrow> int \<Rightarrow> (IchimokuCloud \<Rightarrow> IchimokuCloud) \<Rightarrow> error + calc_state" where
  "assign st k f =
     (case item_at (st_result st) k of
        None \<Rightarrow> Inl TypeError
      | Some r \<Rightarrow> Inr (st\<lparr>st_result := (st_result st)[nat k := f r]\<rparr>))"

text \<open>The midpoint \<^verbatim>\<open>(getHighest(...) + getLowest(...)) / 2\<close>.\<close>

definition midpoint :: "KLineData list \<Rightarrow> int \<Rightarrow> int \<Rightarrow> error + real" where
  "midpoint dataList i period =
     bind_err (getHighest dataList i period) (\<lambda>h.
     bind_err (getLowest dataList i period) (\<lambda>l.
     Inr ((h + l) / 2)))"

definition step_tenkan :: "calcParams \<Rightarrow> nat \<Rightarrow> calc_state \<Rightarrow> error + calc_state" where
  "step_tenkan params i st =
     (if int i \<ge> tenkanPeriod params - 1 then
        bind_err (midpoint (st_dataList st) (int i) (tenkanPeriod params)) (\<lambda>v.
        assign st (int i) (\<lambda>r. r\<lparr>tenkan := Some v\<rparr>))
      else Inr st)"

definition step_kijun :: "calcParams \<Rightarrow> nat \<Rightarrow> calc_state \<Rightarrow> error + calc_state" where
  "step_kijun params i st =
     (if int i \<ge> kijunPeriod params - 1 then
        bind_err (midpoint (st_dataList st) (int i) (kijunPeriod params)) (\<lambda>v.
        assign st (int i) (\<lambda>r. r\<lparr>kijun := Some v\<rparr>))
      else Inr st)"

definition step_senkouA :: "calcParams \<Rightarrow> nat \<Rightarrow> calc_state \<Rightarrow> error + calc_state" where
  "step_senkouA params i st =
     (case item_at (st_result st) (int i) of
        None \<Rightarrow> Inl TypeError
      | Some r \<Rightarrow>
          (case (tenkan r, kijun r) of
             (Some tenkanVal, Some kijunVal) \<Rightarrow>
               assign st (int i + displacement params)
                 (\<lambda>r. r\<lparr>senkou1 := Some ((tenkanVal + kijunVal) / 2)\<rparr>)
           | _ \<Rightarrow> Inr st))"

definition step_senkouB :: "calcParams \<Rightarrow> nat \<Rightarrow> calc_state \<Rightarrow> error + calc_state" where
  "step_senkouB params i st =
     (if int i \<ge> senkouBPeriod params - 1 then
        bind_err (midpoint (st_dataList st) (int i) (senkouBPeriod params)) (\<lambda>v.
        assign st (int i + displacement params) (\<lambda>r. r\<lparr>senkou2 := Some v\<rparr>))
      else Inr st)"

definition step_chikou :: "calcParams \<Rightarrow> KLineData \<Rightarrow> nat \<Rightarrow> calc_state \<Rightarrow> error + calc_state" where
  "step_chikou params kLineData i st =
     (if int i \<ge> displacement params then
        assign st (int i - displacement params) (\<lambda>r. r\<lparr>chikou := Some (close kLineData)\<rparr>)
      else Inr st)"

text \<open>The callback of \<^verbatim>\<open>dataList.forEach\<close>, for the element \<open>kLineData\<close> at index \<open>i\<close>.\<close>

definition calc_body :: "calcParams \<Rightarrow> KLineData \<Rightarrow> nat \<Rightarrow> calc_state \<Rightarrow> error + calc_state" where
  "calc_body params kLineData i st =
     bind_err (step_tenkan params i st) (\<lambda>st.
     bind_err (step_kijun params i st) (\<lambda>st.
     bind_err (step_senkouA params i st) (\<lambda>st.
     bind_err (step_senkouB params i st) (\<lambda>st.
     step_chikou params kLineData i st))))"

text \<open>
  \<^verbatim>\<open>Array.prototype.forEach\<close>: the bound \<open>len\<close> is the length read before the
  first call; each element is read from the array as it is when its turn comes, and an
  index that holds nothing by then is skipped.
\<close>

function calc_forEach :: "calcParams \<Rightarrow> nat \<Rightarrow> nat \<Rightarrow> calc_state \<Rightarrow> error + calc_state" where
  "calc_forEach params len i st =
     (if i < len then
        (case item_at (st_dataList st) (int i) of
           None \<Rightarrow> calc_forEach params len (i + 1) st
         | Some kLineData \<Rightarrow>
             (case calc_body params kLineData i st of
                Inl e \<Rightarrow> Inl e
              | Inr st' \<Rightarrow> calc_forEach params len (i + 1) st'))
      else Inr st)"
  by pat_completeness auto
termination
  by (relation "measure (\<lambda>(params, len, i, st). len - i)") auto

declare calc_forEach.simps [simp del]

text \<open>The loop \<^verbatim>\<open>for (let i = 0; i < resultLength; i++) result.push({})\<close>.\<close>

function calc_init :: "int \<Rightarrow> int \<Rightarrow> IchimokuCloud list \<Rightarrow> IchimokuCloud list" where
  "calc_init i resultLength result =
     (if i < resultLength then calc_init (i + 1) resultLength (result @ [emptyPoint])
      else result)"
  by pat_completeness auto
termination
  by (relation "measure (\<lambda>(i, resultLength, result). nat (resultLength - i))") auto

declare calc_init.simps [simp del]

text \<open>\<^verbatim>\<open>calc\<close> up to its \<^verbatim>\<open>return\<close>: the state both arrays are left in.\<close>

definition calc_run :: "KLineData list \<Rightarrow> calcParams \<Rightarrow> error + calc_state" where
  "calc_run dataList params =
     (let resultLength = int (length dataList) + displacement params;
          result = calc_init 0 resultLength []
      in calc_forEach params (length dataList) 0
           \<lparr>st_dataList = dataList, st_result = result\<rparr>)"

definition calc :: "KLineData list \<Rightarrow> calcParams \<Rightarrow> error + IchimokuCloud list" where
  "calc dataList params = bind_err (calc_run dataList params) (\<lambda>st. Inr (st_result st))"

section \<open>The cloud renderer\<close>

text \<open>A pixel position \<^verbatim>\<open>{ x, y }\<close>.\<close>

record Coordinate =
  coord_x :: real
  coord_y :: real

text \<open>
  The drawing surface is the sequence of calls made on the 2D context, in order;
  \<open>FillStyle\<close> is the assignment to \<^verbatim>\<open>ctx.fillStyle\<close>.
\<close>

datatype canvas_op =
    BeginPath
  | MoveTo real real
  | LineTo real real
  | ClosePath
  | FillStyle string
  | Fill

definition bullishColor :: string where
  "bullishColor = ''rgba(38, 166, 154, 0.3)''"

definition bearishColor :: string where
  "bearishColor = ''rgba(239, 83, 80, 0.3)''"

text \<open>
  The first loop of \<^verbatim>\<open>drawCloudPolygon\<close> visits \<^verbatim>\<open>points1\<close> from index 1
  upwards, the second visits \<^verbatim>\<open>points2\<close> from its last index down to 0.
\<close>

definition drawCloudPolygon ::
  "canvas_op list \<Rightarrow> Coordinate list \<Rightarrow> Coordinate list \<Rightarrow> string \<Rightarrow> canvas_op list" where
  "drawCloudPolygon c pts1 pts2 color =
     (if length pts1 < 2 then c
      else c @ [BeginPath, MoveTo (coord_x (pts1 ! 0)) (coord_y (pts1 ! 0))]
             @ map (\<lambda>p. LineTo (coord_x p) (coord_y p)) (drop 1 pts1)
             @ map (\<lambda>p. LineTo (coord_x p) (coord_y p)) (rev pts2)
             @ [ClosePath, FillStyle color, Fill])"

text \<open>The context and the three variables the scan of \<^verbatim>\<open>draw\<close> updates.\<close>

record draw_state =
  ctx :: "canvas_op list"
  points1 :: "Coordinate list"
  points2 :: "Coordinate list"
  currentIsBullish :: "bool option"

text \<open>\<^verbatim>\<open>currentIsBullish ? bullishColor : bearishColor\<close>; \<^verbatim>\<open>null\<close> is falsy.\<close>

definition cloudColor :: "bool option \<Rightarrow> string" where
  "cloudColor b = (case b of Some True \<Rightarrow> bullishColor | _ \<Rightarrow> bearishColor)"

text \<open>
  The body of the scan at index \<open>i\<close>. \<open>xToPixel\<close> and \<open>yToPixel\<close> are the host's
  \<^verbatim>\<open>xAxis.convertToPixel\<close> and \<^verbatim>\<open>yAxis.convertToPixel\<close>;
  \<^verbatim>\<open>result[i]?.senkou1\<close> is absent when the index is outside the array.
\<close>

definition draw_step ::
  "(int \<Rightarrow> real) \<Rightarrow> (real \<Rightarrow> real) \<Rightarrow> IchimokuCloud list \<Rightarrow> draw_state \<Rightarrow> int \<Rightarrow> draw_state" where
  "draw_step xToPixel yToPixel result s i =
     (let senkou1Val = Option.bind (item_at result i) senkou1;
          senkou2Val = Option.bind (item_at result i) senkou2
      in case (senkou1Val, senkou2Val) of
           (Some v1, Some v2) \<Rightarrow>
             (let x = xToPixel i;
                  y1 = yToPixel v1;
                  y2 = yToPixel v2;
                  isBullish = (v1 \<ge> v2);
                  s' = (if currentIsBullish s \<noteq> None \<and> currentIsBullish s \<noteq> Some isBullish
                        then s\<lparr>ctx := drawCloudPolygon (ctx s) (points1 s) (points2 s)
                                        (cloudColor (currentIsBullish s)),
                               points1 := (if length (points1 s) > 0 then [last (points1 s)] else []),
                               points2 := (if length (points2 s) > 0 then [last (points2 s)] else [])\<rparr>
                        else s)
              in s'\<lparr>points1 := points1 s' @ [\<lparr>coord_x = x, coord_y = y1\<rparr>],
                    points2 := points2 s' @ [\<lparr>coord_x = x, coord_y = y2\<rparr>],
                    currentIsBullish := Some isBullish\<rparr>)
         | _ \<Rightarrow> s)"

text \<open>The scan \<^verbatim>\<open>for (let i = visibleRange.from; i < visibleRange.to; i++)\<close>.\<close>

function draw_loop ::
  "(int \<Rightarrow> real) \<Rightarrow> (real \<Rightarrow> real) \<Rightarrow> IchimokuCloud list \<Rightarrow> int \<Rightarrow> int \<Rightarrow> draw_state \<Rightarrow> draw_state" where
  "draw_loop xToPixel yToPixel result i to s =
     (if i < to then draw_loop xToPixel yToPixel result (i + 1) to
                       (draw_step xToPixel yToPixel result s i)
      else s)"
  by pat_completeness auto
termination
  by (relation "measure (\<lambda>(xToPixel, yToPixel, result, i, to, s). nat (to - i))") auto

declare draw_loop.simps [simp del]

definition draw_init :: "canvas_op list \<Rightarrow> draw_state" where
  "draw_init c = \<lparr>ctx = c, points1 = [], points2 = [], currentIsBullish = None\<rparr>"

text \<open>
  \<^verbatim>\<open>draw\<close>: the calls left on the context, and the returned \<^verbatim>\<open>false\<close>.
  \<open>from\<close> and \<open>to\<close> are the two ends of \<^verbatim>\<open>chart.getVisibleRange()\<close>.
\<close>

definition draw ::
  "canvas_op list \<Rightarrow> (int \<Rightarrow> real) \<Rightarrow> (real \<Rightarrow> real) \<Rightarrow> IchimokuCloud list \<Rightarrow> int \<Rightarrow> int
     \<Rightarrow> canvas_op list \<times> bool" where
  "draw c xToPixel yToPixel result from to =
     (let s = draw_loop xToPixel yToPixel result from to (draw_init c);
          c' = (if length (points1 s) > 1 \<and> currentIsBullish s \<noteq> None
                then drawCloudPolygon (ctx s) (points1 s) (points2 s)
                       (cloudColor (currentIsBullish s))
                else ctx s)
      in (c', False))"

section \<open>What the calculator is specified to compute\<close>

text \<open>
  The window of bar indices \<open>[max(0, i - period + 1), i]\<close>, the highest high and the
  lowest low over it, and their midpoint, written from the specification.
\<close>

definition window :: "nat \<Rightarrow> int \<Rightarrow> nat set" where
  "window i period = {nat (max 0 (int i - period + 1))..i}"

definition highestHigh :: "KLineData list \<Rightarrow> nat \<Rightarrow> int \<Rightarrow> real" where
  "highestHigh bars i period = Max ((\<lambda>k. high (bars ! k)) ` window i period)"

definition lowestLow :: "KLineData list \<Rightarrow> nat \<Rightarrow> int \<Rightarrow> real" where
  "lowestLow bars i period = Min ((\<lambda>k. low (bars ! k)) ` window i period)"

definition midprice :: "KLineData list \<Rightarrow> nat \<Rightarrow> int \<Rightarrow> real" where
  "midprice bars i period = (highestHigh bars i period + lowestLow bars i period) / 2"

text \<open>Parameters as the data model has them: four positive integers.\<close>

definition valid_params :: "calcParams \<Rightarrow> bool" where
  "valid_params params \<longleftrightarrow>
     1 \<le> tenkanPeriod params \<and> 1 \<le> kijunPeriod params \<and>
     1 \<le> senkouBPeriod params \<and> 1 \<le> displacement params"

text \<open>
  The record at output index \<open>j\<close> once the tenkan, kijun, span A, span B and chikou
  statements have run for the bar indices below \<open>kt\<close>, \<open>kk\<close>, \<open>ka\<close>, \<open>kb\<close> and
  \<open>kc\<close>.
\<close>

definition partial_point ::
  "calcParams \<Rightarrow> KLineData list \<Rightarrow> nat \<Rightarrow> nat \<Rightarrow> nat \<Rightarrow> nat \<Rightarrow> nat \<Rightarrow> nat \<Rightarrow> IchimokuCloud" where
  "partial_point params bars kt kk ka kb kc j =
     (let d = nat (displacement params) in
      \<lparr>tenkan =
         (if j < kt \<and> tenkanPeriod params - 1 \<le> int j
          then Some (midprice bars j (tenkanPeriod params)) else None),
       kijun =
         (if j < kk \<and> kijunPeriod params - 1 \<le> int j
          then Some (midprice bars j (kijunPeriod params)) else None),
       chikou =
         (if j + d < kc then Some (close (bars ! (j + d))) else None),
       senkou1 =
         (if d \<le> j \<and> j - d < ka \<and> tenkanPeriod params - 1 \<le> int (j - d)
             \<and> kijunPeriod params - 1 \<le> int (j - d)
          then Some ((midprice bars (j - d) (tenkanPeriod params)
                      + midprice bars (j - d) (kijunPeriod params)) / 2)
          else None),
       senkou2 =
         (if d \<le> j \<and> j - d < kb \<and> senkouBPeriod params - 1 \<le> int (j - d)
          then Some (midprice bars (j - d) (senkouBPeriod params)) else None)\<rparr>)"

definition partial_state ::
  "calcParams \<Rightarrow> KLineData list \<Rightarrow> nat \<Rightarrow> nat \<Rightarrow> nat \<Rightarrow> nat \<Rightarrow> nat \<Rightarrow> calc_state" where
  "partial_state params bars kt kk ka kb kc =
     \<lparr>st_dataList = bars,
      st_result = map (partial_point params bars kt kk ka kb kc)
                    [0..<length bars + nat (displacement params)]\<rparr>"

section \<open>What the renderer is specified to draw\<close>

text \<open>An index is present when both spans are defined there.\<close>

definition present :: "IchimokuCloud list \<Rightarrow> int \<Rightarrow> bool" where
  "present result i \<longleftrightarrow>
     Option.bind (item_at result i) senkou1 \<noteq> None \<and>
     Option.bind (item_at result i) senkou2 \<noteq> None"

text \<open>The present indices of the visible range \<open>[from, to)\<close>.\<close>

definition visible_present :: "IchimokuCloud list \<Rightarrow> int \<Rightarrow> int \<Rightarrow> int set" where
  "visible_present result from to = {i \<in> {from..<to}. present result i}"

text \<open>The points a sequence of context calls passes through, and their horizontal positions.\<close>

fun path_points :: "canvas_op list \<Rightarrow> (real \<times> real) list" where
  "path_points [] = []"
| "path_points (MoveTo x y # ops) = (x, y) # path_points ops"
| "path_points (LineTo x y # ops) = (x, y) # path_points ops"
| "path_points (_ # ops) = path_points ops"

definition path_xs :: "canvas_op list \<Rightarrow> real set" where
  "path_xs ops = fst ` set (path_points ops)"

text \<open>
  What holds of the scan after the indices \<open>seen\<close>, from a context that held \<open>c0\<close>:
  the two edge lists run through the same horizontal positions; before the first present
  index nothing has changed; after exactly one present index the open segment has one
  point and nothing has been drawn; after two or more it has at least two points; and
  the positions drawn so far together with those of the open segment are those of the
  present indices seen.
\<close>

definition scan_inv ::
  "canvas_op list \<Rightarrow> (int \<Rightarrow> real) \<Rightarrow> IchimokuCloud list \<Rightarrow> int list \<Rightarrow> draw_state \<Rightarrow> bool" where
  "scan_inv c0 xToPixel result seen s \<longleftrightarrow>
     (let n = length (filter (present result) seen) in
      map coord_x (points1 s) = map coord_x (points2 s) \<and>
      (n = 0 \<longrightarrow> s = draw_init c0) \<and>
      (n = 1 \<longrightarrow> length (points1 s) = 1 \<and> ctx s = c0 \<and> currentIsBullish s \<noteq> None) \<and>
      (2 \<le> n \<longrightarrow> 2 \<le> length (points1 s) \<and> currentIsBullish s \<noteq> None) \<and>
      path_xs (ctx s) \<union> coord_x ` set (points1 s) =
        path_xs c0 \<union> xToPixel ` set (filter (present result) seen))"

section \<open>Sample data\<close>

text \<open>Three bars, and the parameters \<open>[1, 2, 2, 1]\<close>.\<close>

definition sample_bars :: "KLineData list" where
  "sample_bars =
     [\<lparr>high = 10, low = 5, close = 7\<rparr>,
      \<lparr>high = 12, low = 6, close = 8\<rparr>,
      \<lparr>high = 11, low = 4, close = 9\<rparr>]"

definition sample_params :: calcParams where
  "sample_params =
     \<lparr>tenkanPeriod = 1, kijunPeriod = 2, senkouBPeriod = 2, displacement = 1\<rparr>"

text \<open>What \<^verbatim>\<open>calc\<close> returns for them.\<close>

definition sample_result :: "IchimokuCloud list" where
  "sample_result =
     [\<lparr>tenkan = Some (15 / 2), kijun = None, chikou = Some 8, senkou1 = None, senkou2 = None\<rparr>,
      \<lparr>tenkan = Some 9, kijun = Some (17 / 2), chikou = Some 9, senkou1 = None, senkou2 = None\<rparr>,
      \<lparr>tenkan = Some (15 / 2), kijun = Some 8, chikou = None,
         senkou1 = Some (35 / 4), senkou2 = Some (17 / 2)\<rparr>,
      \<lparr>tenkan = None, kijun = None, chikou = None, senkou1 = Some (31 / 4), senkou2 = Some 8\<rparr>]"

text \<open>
  Four bars and the parameters \<open>[1, 1, 2, 1]\<close>, and what \<^verbatim>\<open>calc\<close> returns for
  them: both spans are present at the indices 2, 3 and 4; span A is above span B at 2,
  equal to it at 3 and below it at 4.
\<close>

definition flip_bars :: "KLineData list" where
  "flip_bars =
     [\<lparr>high = 10, low = 5, close = 7\<rparr>,
      \<lparr>high = 12, low = 7, close = 10\<rparr>,
      \<lparr>high = 12, low = 7, close = 9\<rparr>,
      \<lparr>high = 8, low = 3, close = 4\<rparr>]"

definition flip_params :: calcParams where
  "flip_params =
     \<lparr>tenkanPeriod = 1, kijunPeriod = 1, senkouBPeriod = 2, displacement = 1\<rparr>"

definition flip_result :: "IchimokuCloud list" where
  "flip_result =
     [\<lparr>tenkan = Some (15 / 2), kijun = Some (15 / 2), chikou = Some 10,
         senkou1 = None, senkou2 = None\<rparr>,
      \<lparr>tenkan = Some (19 / 2), kijun = Some (19 / 2), chikou = Some 9,
         senkou1 = Some (15 / 2), senkou2 = None\<rparr>,
      \<lparr>tenkan = Some (19 / 2), kijun = Some (19 / 2), chikou = Some 4,
         senkou1 = Some (19 / 2), senkou2 = Some (17 / 2)\<rparr>,
      \<lparr>tenkan = Some (11 / 2), kijun = Some (11 / 2), chikou = None,
         senkou1 = Some (19 / 2), senkou2 = Some (19 / 2)\<rparr>,
      \<lparr>tenkan = None, kijun = None, chikou = None,
         senkou1 = Some (11 / 2), senkou2 = Some (15 / 2)\<rparr>]"

section \<open>The calculator computes the specified series\<close>


lemma calc_init_eq: "calc_init i n res = res @ replicate (nat (n - i)) emptyPoint"
proof (induction i n res rule: calc_init.induct)
  case (1 i n res)
  show ?case
  proof (cases "i < n")
    case True
    then have "nat (n - i) = Suc (nat (n - (i + 1)))" by simp
    with True 1 show ?thesis
      by (subst calc_init.simps) (simp add: replicate_append_same)
  next
    case False
    then show ?thesis by (subst calc_init.simps) simp
  qed
qed

lemma item_at_nat [simp]: "item_at xs (int k) = (if k < length xs then Some (xs ! k) else None)"
  by (simp add: item_at_def)

lemma Max_insert_max:
  fixes a b :: real
  assumes "finite S"
  shows "Max (insert (if b > a then b else a) S) = Max (insert a (insert b S))"
proof (cases "S = {}")
  case True
  then show ?thesis by (simp add: max_def)
next
  case False
  with assms show ?thesis by (simp add: max_def)
qed

lemma Min_insert_min:
  fixes a b :: real
  assumes "finite S"
  shows "Min (insert (if b < a then b else a) S) = Min (insert a (insert b S))"
proof -
  have m: "(if b < a then b else a) = min a b" by (simp add: min_def)
  show ?thesis
  proof (cases "S = {}")
    case True
    then show ?thesis by (simp add: m)
  next
    case False
    with assms show ?thesis by (simp only: m Min_insert finite_insert insert_not_empty not_False_eq_True min.assoc)
  qed
qed

lemma getHighest_loop_eq:
  "0 \<le> j \<Longrightarrow> e < int (length bars) \<Longrightarrow>
   getHighest_loop bars j e h = Inr (Max (insert h ((\<lambda>k. high (bars ! nat k)) ` {j..e})))"
proof (induction bars j e h rule: getHighest_loop.induct)
  case (1 dataList i endIndex highest)
  show ?case
  proof (cases "i \<le> endIndex")
    case True
    with 1 have it: "item_at dataList i = Some (dataList ! nat i)"
      by (simp add: item_at_def)
    have split: "{i..endIndex} = insert i {i + 1..endIndex}"
      using True by auto
    have ih: "getHighest_loop dataList (i + 1) endIndex
               (if high (dataList ! nat i) > highest then high (dataList ! nat i) else highest) =
          Inr (Max (insert (if high (dataList ! nat i) > highest then high (dataList ! nat i) else highest)
            ((\<lambda>k. high (dataList ! nat k)) ` {i + 1..endIndex})))"
      using 1 True it by simp
    show ?thesis
      apply (subst getHighest_loop.simps)
      apply (simp only: True it if_True option.case ih split image_insert)
      apply (subst Max_insert_max)
       apply simp
      apply (simp only: insert_commute)
      done
  next
    case False
    then show ?thesis by (subst getHighest_loop.simps) simp
  qed
qed

lemma getLowest_loop_eq:
  "0 \<le> j \<Longrightarrow> e < int (length bars) \<Longrightarrow>
   getLowest_loop bars j e h = Inr (Min (insert h ((\<lambda>k. low (bars ! nat k)) ` {j..e})))"
proof (induction bars j e h rule: getLowest_loop.induct)
  case (1 dataList i endIndex lowest)
  show ?case
  proof (cases "i \<le> endIndex")
    case True
    with 1 have it: "item_at dataList i = Some (dataList ! nat i)"
      by (simp add: item_at_def)
    have split: "{i..endIndex} = insert i {i + 1..endIndex}"
      using True by auto
    have ih: "getLowest_loop dataList (i + 1) endIndex
               (if low (dataList ! nat i) < lowest then low (dataList ! nat i) else lowest) =
          Inr (Min (insert (if low (dataList ! nat i) < lowest then low (dataList ! nat i) else lowest)
            ((\<lambda>k. low (dataList ! nat k)) ` {i + 1..endIndex})))"
      using 1 True it by simp
    show ?thesis
      apply (subst getLowest_loop.simps)
      apply (simp only: True it if_True option.case ih split image_insert)
      apply (subst Min_insert_min)
       apply simp
      apply (simp only: insert_commute)
      done
  next
    case False
    then show ?thesis by (subst getLowest_loop.simps) simp
  qed
qed

lemma window_image:
  assumes "1 \<le> p" "i < n"
  shows "(\<lambda>k. f (nat k)) ` {max 0 (int i - p + 1)..int i} = f ` window i p"
proof -
  have "nat ` {max 0 (int i - p + 1)..int i} = {nat (max 0 (int i - p + 1))..i}"
  proof (intro set_eqI iffI)
    fix x assume "x \<in> nat ` {max 0 (int i - p + 1)..int i}"
    then show "x \<in> {nat (max 0 (int i - p + 1))..i}" by auto
  next
    fix x assume x: "x \<in> {nat (max 0 (int i - p + 1))..i}"
    then have "int x \<in> {max 0 (int i - p + 1)..int i}" by auto
    then have "nat (int x) \<in> nat ` {max 0 (int i - p + 1)..int i}" by (rule imageI)
    then show "x \<in> nat ` {max 0 (int i - p + 1)..int i}" by simp
  qed
  then show ?thesis by (simp add: window_def image_image [symmetric])
qed

lemma getHighest_eq:
  assumes "1 \<le> p" "i < length bars"
  shows "getHighest bars (int i) p = Inr (highestHigh bars i p)"
proof -
  let ?s = "max 0 (int i - p + 1)"
  have s: "0 \<le> ?s" "?s \<le> int i" "?s < int (length bars)" using assms by auto
  have it: "item_at bars ?s = Some (bars ! nat ?s)" using s by (simp add: item_at_def)
  have ins: "insert ?s {?s + 1..int i} = {?s..int i}" using s by auto
  have "getHighest bars (int i) p =
        Inr (Max (insert (high (bars ! nat ?s)) ((\<lambda>k. high (bars ! nat k)) ` {?s + 1..int i})))"
    unfolding getHighest_def Let_def it option.case
    by (rule getHighest_loop_eq) (use s assms in auto)
  also have "insert (high (bars ! nat ?s)) ((\<lambda>k. high (bars ! nat k)) ` {?s + 1..int i})
             = (\<lambda>k. high (bars ! nat k)) ` {?s..int i}"
    by (simp only: ins [symmetric] image_insert)
  also have "\<dots> = (\<lambda>k. high (bars ! k)) ` window i p"
    using assms by (rule window_image)
  finally show ?thesis by (simp add: highestHigh_def)
qed

lemma getLowest_eq:
  assumes "1 \<le> p" "i < length bars"
  shows "getLowest bars (int i) p = Inr (lowestLow bars i p)"
proof -
  let ?s = "max 0 (int i - p + 1)"
  have s: "0 \<le> ?s" "?s \<le> int i" "?s < int (length bars)" using assms by auto
  have it: "item_at bars ?s = Some (bars ! nat ?s)" using s by (simp add: item_at_def)
  have ins: "insert ?s {?s + 1..int i} = {?s..int i}" using s by auto
  have "getLowest bars (int i) p =
        Inr (Min (insert (low (bars ! nat ?s)) ((\<lambda>k. low (bars ! nat k)) ` {?s + 1..int i})))"
    unfolding getLowest_def Let_def it option.case
    by (rule getLowest_loop_eq) (use s assms in auto)
  also have "insert (low (bars ! nat ?s)) ((\<lambda>k. low (bars ! nat k)) ` {?s + 1..int i})
             = (\<lambda>k. low (bars ! nat k)) ` {?s..int i}"
    by (simp only: ins [symmetric] image_insert)
  also have "\<dots> = (\<lambda>k. low (bars ! k)) ` window i p"
    using assms by (rule window_image)
  finally show ?thesis by (simp add: lowestLow_def)
qed

lemma midpoint_eq:
  "1 \<le> p \<Longrightarrow> i < length bars \<Longrightarrow> midpoint bars (int i) p = Inr (midprice bars i p)"
  by (simp add: midpoint_def bind_err_def getHighest_eq getLowest_eq midprice_def)

lemma assign_map:
  assumes "0 \<le> z" "nat z < n"
  shows "assign \<lparr>st_dataList = b, st_result = map f [0..<n]\<rparr> z g =
         Inr \<lparr>st_dataList = b, st_result = map (f(nat z := g (f (nat z)))) [0..<n]\<rparr>"
proof -
  have it: "item_at (map f [0..<n]) z = Some (f (nat z))"
    using assms by (simp add: item_at_def)
  have upd: "(map f [0..<n])[nat z := g (f (nat z))] = map (f(nat z := g (f (nat z)))) [0..<n]"
    by (rule nth_equalityI) (auto simp: nth_list_update)
  show ?thesis by (simp add: assign_def it upd)
qed

lemma assign_map_nat:
  assumes "j < n"
  shows "assign \<lparr>st_dataList = b, st_result = map f [0..<n]\<rparr> (int j) g =
         Inr \<lparr>st_dataList = b, st_result = map (f(j := g (f j))) [0..<n]\<rparr>"
  using assign_map [of "int j" n b f g] assms by simp

lemma fun_upd_eqI:
  assumes "\<And>x. x \<noteq> j \<Longrightarrow> f x = h x" "g (f j) = h j"
  shows "f(j := g (f j)) = h"
  using assms by (auto simp: fun_eq_iff)

lemma step_tenkan_partial:
  assumes "1 \<le> tenkanPeriod params" "k < length bars"
  shows "step_tenkan params k (partial_state params bars k kk ka kb kc) =
         Inr (partial_state params bars (Suc k) kk ka kb kc)"
proof -
  let ?f = "partial_point params bars k kk ka kb kc"
  let ?v = "midprice bars k (tenkanPeriod params)"
  have lt: "k < length bars + nat (displacement params)" using assms by simp
  have other: "x \<noteq> k \<Longrightarrow> ?f x = partial_point params bars (Suc k) kk ka kb kc x" for x
    by (simp add: partial_point_def Let_def less_Suc_eq)
  show ?thesis
  proof (cases "tenkanPeriod params - 1 \<le> int k")
    case True
    have "?f(k := (?f k)\<lparr>tenkan := Some ?v\<rparr>) = partial_point params bars (Suc k) kk ka kb kc"
      using other
    proof (rule fun_upd_eqI)
      show "(?f k)\<lparr>tenkan := Some ?v\<rparr> = partial_point params bars (Suc k) kk ka kb kc k"
        using True by (simp add: partial_point_def Let_def)
    qed
    then have "assign (partial_state params bars k kk ka kb kc) (int k) (\<lambda>r. r\<lparr>tenkan := Some ?v\<rparr>) =
          Inr (partial_state params bars (Suc k) kk ka kb kc)"
      unfolding partial_state_def
      by (simp only: assign_map_nat [OF lt])
    with True assms show ?thesis
      by (simp add: step_tenkan_def bind_err_def midpoint_eq partial_state_def)
  next
    case False
    then have "?f x = partial_point params bars (Suc k) kk ka kb kc x" for x
      by (cases "x = k") (simp_all add: other, simp add: partial_point_def Let_def)
    then have "?f = partial_point params bars (Suc k) kk ka kb kc" by (rule ext)
    with False show ?thesis by (simp add: step_tenkan_def partial_state_def)
  qed
qed

lemma step_kijun_partial:
  assumes "1 \<le> kijunPeriod params" "k < length bars"
  shows "step_kijun params k (partial_state params bars kt k ka kb kc) =
         Inr (partial_state params bars kt (Suc k) ka kb kc)"
proof -
  let ?f = "partial_point params bars kt k ka kb kc"
  let ?v = "midprice bars k (kijunPeriod params)"
  have lt: "k < length bars + nat (displacement params)" using assms by simp
  have other: "x \<noteq> k \<Longrightarrow> ?f x = partial_point params bars kt (Suc k) ka kb kc x" for x
    by (simp add: partial_point_def Let_def less_Suc_eq)
  show ?thesis
  proof (cases "kijunPeriod params - 1 \<le> int k")
    case True
    have "?f(k := (?f k)\<lparr>kijun := Some ?v\<rparr>) = partial_point params bars kt (Suc k) ka kb kc"
      using other
    proof (rule fun_upd_eqI)
      show "(?f k)\<lparr>kijun := Some ?v\<rparr> = partial_point params bars kt (Suc k) ka kb kc k"
        using True by (simp add: partial_point_def Let_def)
    qed
    then have "assign (partial_state params bars kt k ka kb kc) (int k) (\<lambda>r. r\<lparr>kijun := Some ?v\<rparr>) =
          Inr (partial_state params bars kt (Suc k) ka kb kc)"
      unfolding partial_state_def
      by (simp only: assign_map_nat [OF lt])
    with True assms show ?thesis
      by (simp add: step_kijun_def bind_err_def midpoint_eq partial_state_def)
  next
    case False
    then have "?f x = partial_point params bars kt (Suc k) ka kb kc x" for x
      by (cases "x = k") (simp_all add: other, simp add: partial_point_def Let_def)
    then have "?f = partial_point params bars kt (Suc k) ka kb kc" by (rule ext)
    with False show ?thesis by (simp add: step_kijun_def partial_state_def)
  qed
qed

lemma shifted_less_Suc:
  "x \<noteq> k + d \<Longrightarrow> d \<le> x \<Longrightarrow> x - d < Suc k \<longleftrightarrow> x - d < (k::nat)"
  by arith

lemma step_senkouA_partial:
  assumes "0 \<le> displacement params" "k < length bars"
  shows "step_senkouA params k (partial_state params bars (Suc k) (Suc k) k kb kc) =
         Inr (partial_state params bars (Suc k) (Suc k) (Suc k) kb kc)"
proof -
  let ?d = "nat (displacement params)"
  let ?f = "partial_point params bars (Suc k) (Suc k) k kb kc"
  let ?h = "partial_point params bars (Suc k) (Suc k) (Suc k) kb kc"
  let ?t = "midprice bars k (tenkanPeriod params)"
  let ?j = "midprice bars k (kijunPeriod params)"
  let ?both = "tenkanPeriod params - 1 \<le> int k \<and> kijunPeriod params - 1 \<le> int k"
  have idx: "int k + displacement params = int (k + ?d)" using assms by simp
  have lt: "k + ?d < length bars + ?d" using assms by simp
  have rd: "item_at (st_result (partial_state params bars (Suc k) (Suc k) k kb kc)) (int k) = Some (?f k)"
    using assms by (simp add: partial_state_def)
  have tk: "tenkan (?f k) = (if tenkanPeriod params - 1 \<le> int k then Some ?t else None)"
           "kijun (?f k) = (if kijunPeriod params - 1 \<le> int k then Some ?j else None)"
    by (simp_all add: partial_point_def Let_def)
  have other: "x \<noteq> k + ?d \<Longrightarrow> ?f x = ?h x" for x
    by (cases "?d \<le> x") (simp_all add: partial_point_def Let_def shifted_less_Suc)
  show ?thesis
  proof (cases ?both)
    case True
    have "?f(k + ?d := (?f (k + ?d))\<lparr>senkou1 := Some ((?t + ?j) / 2)\<rparr>) = ?h"
      using other
    proof (rule fun_upd_eqI)
      show "(?f (k + ?d))\<lparr>senkou1 := Some ((?t + ?j) / 2)\<rparr> = ?h (k + ?d)"
        using True by (simp add: partial_point_def Let_def)
    qed
    then have "assign (partial_state params bars (Suc k) (Suc k) k kb kc) (int (k + ?d))
            (\<lambda>r. r\<lparr>senkou1 := Some ((?t + ?j) / 2)\<rparr>) =
          Inr (partial_state params bars (Suc k) (Suc k) (Suc k) kb kc)"
      unfolding partial_state_def
      by (simp only: assign_map_nat [OF lt])
    with True show ?thesis
      unfolding step_senkouA_def rd option.case tk idx by simp
  next
    case False
    then have "?f x = ?h x" for x
      by (cases "x = k + ?d") (simp_all add: other, auto simp: partial_point_def Let_def)
    then have "?f = ?h" by (rule ext)
    then have "partial_state params bars (Suc k) (Suc k) k kb kc =
                    partial_state params bars (Suc k) (Suc k) (Suc k) kb kc"
      by (simp add: partial_state_def)
    with False show ?thesis
      unfolding step_senkouA_def rd option.case tk by auto
  qed
qed

lemma step_senkouB_partial:
  assumes "1 \<le> senkouBPeriod params" "0 \<le> displacement params" "k < length bars"
  shows "step_senkouB params k (partial_state params bars kt kk ka k kc) =
         Inr (partial_state params bars kt kk ka (Suc k) kc)"
proof -
  let ?d = "nat (displacement params)"
  let ?f = "partial_point params bars kt kk ka k kc"
  let ?h = "partial_point params bars kt kk ka (Suc k) kc"
  let ?v = "midprice bars k (senkouBPeriod params)"
  have idx: "int k + displacement params = int (k + ?d)" using assms by simp
  have lt: "k + ?d < length bars + ?d" using assms by simp
  have other: "x \<noteq> k + ?d \<Longrightarrow> ?f x = ?h x" for x
    by (cases "?d \<le> x") (simp_all add: partial_point_def Let_def shifted_less_Suc)
  show ?thesis
  proof (cases "senkouBPeriod params - 1 \<le> int k")
    case True
    have "?f(k + ?d := (?f (k + ?d))\<lparr>senkou2 := Some ?v\<rparr>) = ?h"
      using other
    proof (rule fun_upd_eqI)
      show "(?f (k + ?d))\<lparr>senkou2 := Some ?v\<rparr> = ?h (k + ?d)"
        using True by (simp add: partial_point_def Let_def)
    qed
    then have "assign (partial_state params bars kt kk ka k kc) (int (k + ?d)) (\<lambda>r. r\<lparr>senkou2 := Some ?v\<rparr>) =
          Inr (partial_state params bars kt kk ka (Suc k) kc)"
      unfolding partial_state_def
      by (simp only: assign_map_nat [OF lt])
    with True assms show ?thesis
      unfolding step_senkouB_def idx
      by (simp add: bind_err_def midpoint_eq partial_state_def)
  next
    case False
    then have "?f x = ?h x" for x
      by (cases "x = k + ?d") (simp_all add: other, simp add: partial_point_def Let_def)
    then have "?f = ?h" by (rule ext)
    with False show ?thesis by (simp add: step_senkouB_def partial_state_def)
  qed
qed

lemma step_chikou_partial:
  assumes "0 \<le> displacement params" "k < length bars"
  shows "step_chikou params (bars ! k) k (partial_state params bars kt kk ka kb k) =
         Inr (partial_state params bars kt kk ka kb (Suc k))"
proof -
  let ?d = "nat (displacement params)"
  let ?f = "partial_point params bars kt kk ka kb k"
  let ?h = "partial_point params bars kt kk ka kb (Suc k)"
  show ?thesis
  proof (cases "displacement params \<le> int k")
    case True
    then have dk: "?d \<le> k" and idx: "int k - displacement params = int (k - ?d)"
      using assms by auto
    have lt: "k - ?d < length bars + ?d" using assms by simp
    have other: "x \<noteq> k - ?d \<Longrightarrow> ?f x = ?h x" for x
    proof -
      assume "x \<noteq> k - ?d"
      with dk have "x + ?d < Suc k \<longleftrightarrow> x + ?d < k" by arith
      then show ?thesis by (simp add: partial_point_def Let_def)
    qed
    have "?f(k - ?d := (?f (k - ?d))\<lparr>chikou := Some (close (bars ! k))\<rparr>) = ?h"
      using other
    proof (rule fun_upd_eqI)
      show "(?f (k - ?d))\<lparr>chikou := Some (close (bars ! k))\<rparr> = ?h (k - ?d)"
        using dk by (simp add: partial_point_def Let_def)
    qed
    then have "assign (partial_state params bars kt kk ka kb k) (int (k - ?d))
            (\<lambda>r. r\<lparr>chikou := Some (close (bars ! k))\<rparr>) =
          Inr (partial_state params bars kt kk ka kb (Suc k))"
      unfolding partial_state_def
      by (simp only: assign_map_nat [OF lt])
    with True show ?thesis
      unfolding step_chikou_def idx by simp
  next
    case False
    then have nd: "\<not> ?d \<le> k" using assms by auto
    have "?f x = ?h x" for x
    proof -
      from nd have "x + ?d < Suc k \<longleftrightarrow> x + ?d < k" by arith
      then show ?thesis by (simp add: partial_point_def Let_def)
    qed
    then have "?f = ?h" by (rule ext)
    with False show ?thesis by (simp add: step_chikou_def partial_state_def)
  qed
qed

lemma calc_body_partial:
  assumes "1 \<le> tenkanPeriod params" "1 \<le> kijunPeriod params" "1 \<le> senkouBPeriod params"
    "0 \<le> displacement params" "k < length bars"
  shows "calc_body params (bars ! k) k (partial_state params bars k k k k k) =
         Inr (partial_state params bars (Suc k) (Suc k) (Suc k) (Suc k) (Suc k))"
  using assms
  by (simp add: calc_body_def bind_err_def step_tenkan_partial step_kijun_partial
      step_senkouA_partial step_senkouB_partial step_chikou_partial)

lemma calc_forEach_partial:
  assumes "1 \<le> tenkanPeriod params" "1 \<le> kijunPeriod params" "1 \<le> senkouBPeriod params"
    "0 \<le> displacement params"
  shows "k \<le> length bars \<Longrightarrow>
         calc_forEach params (length bars) k (partial_state params bars k k k k k) =
         Inr (partial_state params bars (length bars) (length bars) (length bars)
                (length bars) (length bars))"
proof (induction "length bars - k" arbitrary: k)
  case 0
  then have "k = length bars" by simp
  then show ?case by (subst calc_forEach.simps) simp
next
  case (Suc m)
  then have k: "k < length bars" and m: "m = length bars - Suc k" by simp_all
  have rd: "st_dataList (partial_state params bars k k k k k) = bars"
    by (simp add: partial_state_def)
  have body: "calc_body params (bars ! k) k (partial_state params bars k k k k k) =
              Inr (partial_state params bars (Suc k) (Suc k) (Suc k) (Suc k) (Suc k))"
    using assms k by (rule calc_body_partial)
  have "calc_forEach params (length bars) k (partial_state params bars k k k k k) =
        calc_forEach params (length bars) (Suc k)
          (partial_state params bars (Suc k) (Suc k) (Suc k) (Suc k) (Suc k))"
    by (subst calc_forEach.simps) (simp add: k rd body)
  also have "\<dots> = Inr (partial_state params bars (length bars) (length bars) (length bars)
                (length bars) (length bars))"
    using Suc.hyps(1) [OF m] k by simp
  finally show ?case .
qed

lemma partial_point_start: "partial_point params bars 0 0 0 0 0 j = emptyPoint"
  by (simp add: partial_point_def emptyPoint_def)

lemma calc_run_closed_form:
  assumes "1 \<le> tenkanPeriod params" "1 \<le> kijunPeriod params" "1 \<le> senkouBPeriod params"
    "0 \<le> displacement params"
  shows "calc_run bars params =
         Inr (partial_state params bars (length bars) (length bars) (length bars)
                (length bars) (length bars))"
proof -
  have n: "nat (int (length bars) + displacement params) = length bars + nat (displacement params)"
    using assms by simp
  have "calc_init 0 (int (length bars) + displacement params) [] =
        map (partial_point params bars 0 0 0 0 0) [0..<length bars + nat (displacement params)]"
    by (rule nth_equalityI) (simp_all add: calc_init_eq n partial_point_start)
  then have "calc_run bars params = calc_forEach params (length bars) 0 (partial_state params bars 0 0 0 0 0)"
    by (simp add: calc_run_def partial_state_def)
  also have "\<dots> = Inr (partial_state params bars (length bars) (length bars) (length bars)
                (length bars) (length bars))"
    using assms by (rule calc_forEach_partial) simp
  finally show ?thesis .
qed

lemma calc_closed_form:
  assumes "1 \<le> tenkanPeriod params" "1 \<le> kijunPeriod params" "1 \<le> senkouBPeriod params"
    "0 \<le> displacement params"
  shows "calc bars params =
         Inr (map (partial_point params bars (length bars) (length bars) (length bars)
                (length bars) (length bars)) [0..<length bars + nat (displacement params)])"
  using calc_run_closed_form [OF assms, of bars]
  by (simp add: calc_def bind_err_def partial_state_def)

lemma calc_valid:
  assumes "valid_params params"
  shows "calc bars params =
         Inr (map (partial_point params bars (length bars) (length bars) (length bars)
                (length bars) (length bars)) [0..<length bars + nat (displacement params)])"
  using assms by (intro calc_closed_form) (simp_all add: valid_params_def)

section \<open>Frame: what the callback writes\<close>

lemma bind_err_InrD:
  "bind_err m f = Inr y \<Longrightarrow> \<exists>v. m = Inr v \<and> f v = Inr y"
  by (cases m) (simp_all add: bind_err_def)

lemma assign_frame:
  "assign st k f = Inr st' \<Longrightarrow>
   st_dataList st' = st_dataList st \<and> length (st_result st') = length (st_result st)"
  by (auto simp: assign_def split: option.splits)

lemma step_tenkan_frame:
  assumes "step_tenkan params i st = Inr st'"
  shows "st_dataList st' = st_dataList st \<and> length (st_result st') = length (st_result st)"
proof (cases "int i \<ge> tenkanPeriod params - 1")
  case False
  with assms show ?thesis by (simp add: step_tenkan_def)
next
  case True
  with assms obtain v where "assign st (int i) (\<lambda>r. r\<lparr>tenkan := Some v\<rparr>) = Inr st'"
    unfolding step_tenkan_def by (auto dest: bind_err_InrD)
  then show ?thesis by (rule assign_frame)
qed

lemma step_kijun_frame:
  assumes "step_kijun params i st = Inr st'"
  shows "st_dataList st' = st_dataList st \<and> length (st_result st') = length (st_result st)"
proof (cases "int i \<ge> kijunPeriod params - 1")
  case False
  with assms show ?thesis by (simp add: step_kijun_def)
next
  case True
  with assms obtain v where "assign st (int i) (\<lambda>r. r\<lparr>kijun := Some v\<rparr>) = Inr st'"
    unfolding step_kijun_def by (auto dest: bind_err_InrD)
  then show ?thesis by (rule assign_frame)
qed

lemma step_senkouA_frame:
  assumes "step_senkouA params i st = Inr st'"
  shows "st_dataList st' = st_dataList st \<and> length (st_result st') = length (st_result st)"
proof -
  from assms obtain r where r: "item_at (st_result st) (int i) = Some r"
    unfolding step_senkouA_def by (cases "item_at (st_result st) (int i)") simp_all
  show ?thesis
  proof (cases "tenkan r")
    case None
    with assms r show ?thesis by (simp add: step_senkouA_def)
  next
    case t: (Some tenkanVal)
    show ?thesis
    proof (cases "kijun r")
      case None
      with assms r t show ?thesis by (simp add: step_senkouA_def)
    next
      case (Some kijunVal)
      with assms r t have "assign st (int i + displacement params)
                 (\<lambda>r. r\<lparr>senkou1 := Some ((tenkanVal + kijunVal) / 2)\<rparr>) = Inr st'"
        by (simp add: step_senkouA_def)
      then show ?thesis by (rule assign_frame)
    qed
  qed
qed

lemma step_senkouB_frame:
  assumes "step_senkouB params i st = Inr st'"
  shows "st_dataList st' = st_dataList st \<and> length (st_result st') = length (st_result st)"
proof (cases "int i \<ge> senkouBPeriod params - 1")
  case False
  with assms show ?thesis by (simp add: step_senkouB_def)
next
  case True
  with assms obtain v where
    "assign st (int i + displacement params) (\<lambda>r. r\<lparr>senkou2 := Some v\<rparr>) = Inr st'"
    unfolding step_senkouB_def by (auto dest: bind_err_InrD)
  then show ?thesis by (rule assign_frame)
qed

lemma step_chikou_frame:
  assumes "step_chikou params kl i st = Inr st'"
  shows "st_dataList st' = st_dataList st \<and> length (st_result st') = length (st_result st)"
proof (cases "int i \<ge> displacement params")
  case False
  with assms show ?thesis by (simp add: step_chikou_def)
next
  case True
  with assms have
    "assign st (int i - displacement params) (\<lambda>r. r\<lparr>chikou := Some (close kl)\<rparr>) = Inr st'"
    by (simp add: step_chikou_def)
  then show ?thesis by (rule assign_frame)
qed

lemma calc_body_frame:
  assumes "calc_body params kl i st = Inr st'"
  shows "st_dataList st' = st_dataList st \<and> length (st_result st') = length (st_result st)"
proof -
  from assms obtain s1 where 1: "step_tenkan params i st = Inr s1"
    and r1: "bind_err (step_kijun params i s1) (\<lambda>st.
       bind_err (step_senkouA params i st) (\<lambda>st.
       bind_err (step_senkouB params i st) (\<lambda>st.
       step_chikou params kl i st))) = Inr st'"
    unfolding calc_body_def by (blast dest: bind_err_InrD)
  from r1 obtain s2 where 2: "step_kijun params i s1 = Inr s2"
    and r2: "bind_err (step_senkouA params i s2) (\<lambda>st.
       bind_err (step_senkouB params i st) (\<lambda>st.
       step_chikou params kl i st)) = Inr st'"
    by (blast dest: bind_err_InrD)
  from r2 obtain s3 where 3: "step_senkouA params i s2 = Inr s3"
    and r3: "bind_err (step_senkouB params i s3) (\<lambda>st.
       step_chikou params kl i st) = Inr st'"
    by (blast dest: bind_err_InrD)
  from r3 obtain s4 where 4: "step_senkouB params i s3 = Inr s4"
    and 5: "step_chikou params kl i s4 = Inr st'"
    by (blast dest: bind_err_InrD)
  from step_tenkan_frame [OF 1] step_kijun_frame [OF 2] step_senkouA_frame [OF 3]
    step_senkouB_frame [OF 4] step_chikou_frame [OF 5]
  show ?thesis by simp
qed

lemma calc_forEach_frame:
  "calc_forEach params len i st = Inr st' \<Longrightarrow>
   st_dataList st' = st_dataList st \<and> length (st_result st') = length (st_result st)"
proof (induction params len i st rule: calc_forEach.induct)
  case (1 params len i st)
  show ?case
  proof (cases "i < len")
    case False
    with "1.prems" show ?thesis by (subst (asm) calc_forEach.simps) simp
  next
    case True
    show ?thesis
    proof (cases "item_at (st_dataList st) (int i)")
      case None
      with True "1.prems" have "calc_forEach params len (i + 1) st = Inr st'"
        by (subst (asm) calc_forEach.simps) simp
      with "1.IH"(1) [OF True None] show ?thesis by simp
    next
      case (Some kl)
      with True "1.prems" obtain s1 where
        b: "calc_body params kl i st = Inr s1" and
        r: "calc_forEach params len (i + 1) s1 = Inr st'"
        by (subst (asm) calc_forEach.simps) (auto split: sum.splits)
      from "1.IH"(2) [OF True Some b r] calc_body_frame [OF b] show ?thesis by simp
    qed
  qed
qed

lemma calc_run_frame:
  "calc_run bars params = Inr st \<Longrightarrow> st_dataList st = bars"
  by (auto simp: calc_run_def Let_def dest: calc_forEach_frame)

section \<open>Parameters that are not positive\<close>

lemma bind_err_fails:
  assumes "\<And>v. m = Inr v \<Longrightarrow> f v = Inl TypeError"
  shows "bind_err m f = Inl TypeError"
proof (cases m)
  case (Inl e)
  then show ?thesis by (cases e) (simp add: bind_err_def)
next
  case (Inr v)
  with assms show ?thesis by (simp add: bind_err_def)
qed

lemma midpoint_fails:
  assumes "p \<le> 0" "bars \<noteq> []"
  shows "midpoint bars (int (length bars - 1)) p = Inl TypeError"
proof -
  have "\<not> max 0 (int (length bars - 1) - p + 1) < int (length bars)"
    using assms by (cases bars) auto
  then have "item_at bars (max 0 (int (length bars - 1) - p + 1)) = None"
    by (simp add: item_at_def)
  then show ?thesis
    by (simp add: midpoint_def bind_err_def getHighest_def Let_def)
qed

lemma step_tenkan_fails:
  assumes "tenkanPeriod params \<le> 0" "st_dataList st \<noteq> []"
  shows "step_tenkan params (length (st_dataList st) - 1) st = Inl TypeError"
proof -
  have "midpoint (st_dataList st) (int (length (st_dataList st) - 1)) (tenkanPeriod params) = Inl TypeError"
    using assms by (rule midpoint_fails)
  moreover have "tenkanPeriod params - 1 \<le> int (length (st_dataList st) - 1)"
    using assms by simp
  ultimately show ?thesis
    by (simp add: step_tenkan_def bind_err_def)
qed

lemma step_kijun_fails:
  assumes "kijunPeriod params \<le> 0" "st_dataList st \<noteq> []"
  shows "step_kijun params (length (st_dataList st) - 1) st = Inl TypeError"
proof -
  have "midpoint (st_dataList st) (int (length (st_dataList st) - 1)) (kijunPeriod params) = Inl TypeError"
    using assms by (rule midpoint_fails)
  moreover have "kijunPeriod params - 1 \<le> int (length (st_dataList st) - 1)"
    using assms by simp
  ultimately show ?thesis
    by (simp add: step_kijun_def bind_err_def)
qed

lemma step_senkouB_fails:
  assumes "senkouBPeriod params \<le> 0" "st_dataList st \<noteq> []"
  shows "step_senkouB params (length (st_dataList st) - 1) st = Inl TypeError"
proof -
  have "midpoint (st_dataList st) (int (length (st_dataList st) - 1)) (senkouBPeriod params) = Inl TypeError"
    using assms by (rule midpoint_fails)
  moreover have "senkouBPeriod params - 1 \<le> int (length (st_dataList st) - 1)"
    using assms by simp
  ultimately show ?thesis
    by (simp add: step_senkouB_def bind_err_def)
qed

lemma step_senkouA_fails:
  assumes "displacement params < 0" "st_dataList st \<noteq> []"
    "length (st_result st) = nat (int (length (st_dataList st)) + displacement params)"
  shows "step_senkouA params (length (st_dataList st) - 1) st = Inl TypeError"
proof -
  have "\<not> length (st_dataList st) - 1 < length (st_result st)"
    using assms by (cases "st_dataList st") auto
  then show ?thesis by (simp add: step_senkouA_def)
qed

lemma calc_body_last_fails:
  assumes ne: "st_dataList st \<noteq> []"
    and len: "length (st_result st) = nat (int (length (st_dataList st)) + displacement params)"
    and bad: "\<not> (1 \<le> tenkanPeriod params \<and> 1 \<le> kijunPeriod params \<and>
                 1 \<le> senkouBPeriod params \<and> 0 \<le> displacement params)"
  shows "calc_body params kl (length (st_dataList st) - 1) st = Inl TypeError"
  unfolding calc_body_def
proof (rule bind_err_fails)
  let ?i = "length (st_dataList st) - 1"
  fix s1 assume 1: "step_tenkan params ?i st = Inr s1"
  note f1 = step_tenkan_frame [OF 1]
  from 1 ne have t: "1 \<le> tenkanPeriod params"
    using step_tenkan_fails [of params st] by fastforce
  show "bind_err (step_kijun params ?i s1) (\<lambda>st.
       bind_err (step_senkouA params ?i st) (\<lambda>st.
       bind_err (step_senkouB params ?i st) (\<lambda>st.
       step_chikou params kl ?i st))) = Inl TypeError"
  proof (rule bind_err_fails)
    fix s2 assume 2: "step_kijun params ?i s1 = Inr s2"
    note f2 = step_kijun_frame [OF 2]
    from 2 ne f1 have k: "1 \<le> kijunPeriod params"
      using step_kijun_fails [of params s1] by fastforce
    show "bind_err (step_senkouA params ?i s2) (\<lambda>st.
       bind_err (step_senkouB params ?i st) (\<lambda>st.
       step_chikou params kl ?i st)) = Inl TypeError"
    proof (rule bind_err_fails)
      fix s3 assume 3: "step_senkouA params ?i s2 = Inr s3"
      note f3 = step_senkouA_frame [OF 3]
      from 3 ne len f1 f2 have d: "0 \<le> displacement params"
        using step_senkouA_fails [of params s2] by fastforce
      with t k bad have b: "senkouBPeriod params \<le> 0" by simp
      from ne f1 f2 f3 have "st_dataList s3 \<noteq> []" by simp
      with b have "step_senkouB params (length (st_dataList s3) - 1) s3 = Inl TypeError"
        by (rule step_senkouB_fails)
      with f1 f2 f3 have 4: "step_senkouB params ?i s3 = Inl TypeError" by simp
      show "bind_err (step_senkouB params ?i s3) (\<lambda>st.
         step_chikou params kl ?i st) = Inl TypeError"
        by (simp only: 4 bind_err_def sum.case)
    qed
  qed
qed

lemma calc_forEach_fails:
  assumes bad: "\<not> (1 \<le> tenkanPeriod params \<and> 1 \<le> kijunPeriod params \<and>
                 1 \<le> senkouBPeriod params \<and> 0 \<le> displacement params)"
  shows "i < length bars \<Longrightarrow> st_dataList st = bars \<Longrightarrow>
         length (st_result st) = nat (int (length bars) + displacement params) \<Longrightarrow>
         calc_forEach params (length bars) i st = Inl TypeError"
proof (induction "length bars - i" arbitrary: i st)
  case 0
  then show ?case by simp
next
  case (Suc m)
  from Suc.prems have it: "item_at (st_dataList st) (int i) = Some (bars ! i)" by simp
  show ?case
  proof (cases "calc_body params (bars ! i) i st")
    case (Inl e)
    with Suc.prems it show ?thesis
      by (subst calc_forEach.simps) (cases e, simp)
  next
    case (Inr s1)
    note f = calc_body_frame [OF Inr]
    have "i \<noteq> length bars - 1"
    proof
      assume "i = length bars - 1"
      moreover from Suc.prems have "st_dataList st \<noteq> []" by auto
      moreover from Suc.prems have
        "length (st_result st) = nat (int (length (st_dataList st)) + displacement params)"
        by simp
      ultimately have "calc_body params (bars ! i) i st = Inl TypeError"
        using calc_body_last_fails [of st params "bars ! i"] bad Suc.prems(2) by simp
      with Inr show False by simp
    qed
    with Suc.prems have lt: "i + 1 < length bars" by simp
    from Suc.hyps(2) have m: "m = length bars - (i + 1)" by simp
    have "calc_forEach params (length bars) (i + 1) s1 = Inl TypeError"
      using Suc.hyps(1) [OF m lt] f Suc.prems by simp
    with Suc.prems it Inr show ?thesis
      by (subst calc_forEach.simps) simp
  qed
qed

lemma calc_fails:
  assumes "bars \<noteq> []"
    "\<not> (1 \<le> tenkanPeriod params \<and> 1 \<le> kijunPeriod params \<and>
        1 \<le> senkouBPeriod params \<and> 0 \<le> displacement params)"
  shows "calc bars params = Inl TypeError"
proof -
  have "length (calc_init 0 (int (length bars) + displacement params) []) =
        nat (int (length bars) + displacement params)"
    by (simp add: calc_init_eq)
  with assms have "calc_run bars params = Inl TypeError"
    unfolding calc_run_def Let_def
    by (intro calc_forEach_fails) simp_all
  then show ?thesis by (simp add: calc_def bind_err_def)
qed

lemma calc_empty: "calc [] params = Inr (replicate (nat (displacement params)) emptyPoint)"
  by (simp add: calc_def calc_run_def bind_err_def calc_init_eq calc_forEach.simps)

section \<open>Evaluating the calculator on concrete bars\<close>

lemmas calc_eval =
  calc_def calc_run_def calc_init.simps calc_forEach.simps calc_body_def
  step_tenkan_def step_kijun_def step_senkouA_def step_senkouB_def step_chikou_def
  midpoint_def getHighest_def getLowest_def getHighest_loop.simps getLowest_loop.simps
  assign_def bind_err_def item_at_def emptyPoint_def

lemma calc_sample: "calc sample_bars sample_params = Inr sample_result"
  by (simp add: calc_eval sample_bars_def sample_params_def sample_result_def)

lemma calc_flip: "calc flip_bars flip_params = Inr flip_result"
  by (simp add: calc_eval flip_bars_def flip_params_def flip_result_def)

lemma valid_sample_params: "valid_params sample_params"
  by (simp add: valid_params_def sample_params_def)

lemma midprice_sample:
  "midprice sample_bars 0 1 = 15 / 2"
  "midprice sample_bars (Suc 0) 1 = 9"
  "midprice sample_bars (Suc 0) 2 = 17 / 2"
  by (simp_all add: midprice_def highestHigh_def lowestLow_def window_def sample_bars_def
      atLeastAtMost_upt upt_rec)

section \<open>The scan of the renderer\<close>

lemma draw_loop_foldl:
  "draw_loop X Y r i to s = foldl (draw_step X Y r) s [i..to - 1]"
proof (induction X Y r i to s rule: draw_loop.induct)
  case (1 X Y r i to s)
  show ?case
  proof (cases "i < to")
    case True
    then have "[i..to - 1] = i # [i + 1..to - 1]" by (simp add: upto_rec1)
    with True 1 show ?thesis by (subst draw_loop.simps) simp
  next
    case False
    then show ?thesis by (subst draw_loop.simps) simp
  qed
qed

lemma draw_step_absent:
  "\<not> present r i \<Longrightarrow> draw_step X Y r s i = s"
  by (auto simp: present_def draw_step_def Let_def split: option.splits)

lemma draw_step_present:
  assumes "Option.bind (item_at r i) senkou1 = Some v1" "Option.bind (item_at r i) senkou2 = Some v2"
  shows "draw_step X Y r s i =
     (if currentIsBullish s \<noteq> None \<and> currentIsBullish s \<noteq> Some (v2 \<le> v1)
      then s\<lparr>ctx := drawCloudPolygon (ctx s) (points1 s) (points2 s) (cloudColor (currentIsBullish s)),
             points1 := (if points1 s \<noteq> [] then [last (points1 s)] else []) @ [\<lparr>coord_x = X i, coord_y = Y v1\<rparr>],
             points2 := (if points2 s \<noteq> [] then [last (points2 s)] else []) @ [\<lparr>coord_x = X i, coord_y = Y v2\<rparr>],
             currentIsBullish := Some (v2 \<le> v1)\<rparr>
      else s\<lparr>points1 := points1 s @ [\<lparr>coord_x = X i, coord_y = Y v1\<rparr>],
             points2 := points2 s @ [\<lparr>coord_x = X i, coord_y = Y v2\<rparr>],
             currentIsBullish := Some (v2 \<le> v1)\<rparr>)"
  using assms by (simp add: draw_step_def Let_def)

lemma present_cases:
  assumes "present r i"
  obtains v1 v2 where "Option.bind (item_at r i) senkou1 = Some v1"
    "Option.bind (item_at r i) senkou2 = Some v2"
  using assms by (auto simp: present_def)

lemma path_points_append: "path_points (a @ b) = path_points a @ path_points b"
  by (induction a rule: path_points.induct) simp_all

lemma path_points_lineTo:
  "path_points (map (\<lambda>p. LineTo (coord_x p) (coord_y p)) ps) = map (\<lambda>p. (coord_x p, coord_y p)) ps"
  by (induction ps) simp_all

lemma path_points_drawCloudPolygon:
  "path_points (drawCloudPolygon c p1 p2 col) =
     (if length p1 < 2 then path_points c
      else path_points c @ map (\<lambda>p. (coord_x p, coord_y p)) p1
             @ map (\<lambda>p. (coord_x p, coord_y p)) (rev p2))"
proof (cases p1)
  case Nil
  then show ?thesis by (simp add: drawCloudPolygon_def)
next
  case (Cons a as)
  then show ?thesis
    by (simp add: drawCloudPolygon_def path_points_append path_points_lineTo)
qed

lemma path_xs_drawCloudPolygon:
  "path_xs (drawCloudPolygon c p1 p2 col) =
     (if length p1 < 2 then path_xs c
      else path_xs c \<union> coord_x ` set p1 \<union> coord_x ` set p2)"
  by (auto simp: path_xs_def path_points_drawCloudPolygon image_Un image_image)


lemma scan_inv_absent:
  assumes "scan_inv c0 X r seen s" "\<not> present r i"
  shows "scan_inv c0 X r (seen @ [i]) (draw_step X Y r s i)"
  using assms by (simp add: scan_inv_def draw_step_absent)

lemma scan_inv_first:
  assumes inv: "scan_inv c0 X r seen s" and pr: "present r i"
    and n: "length (filter (present r) seen) = 0"
  shows "scan_inv c0 X r (seen @ [i]) (draw_step X Y r s i)"
proof -
  from pr obtain v1 v2 where v: "Option.bind (item_at r i) senkou1 = Some v1"
    "Option.bind (item_at r i) senkou2 = Some v2" by (rule present_cases)
  from inv n have s: "s = draw_init c0" by (simp add: scan_inv_def)
  from n have none: "filter (present r) seen = []" by simp
  show ?thesis
    using pr n none
    by (simp add: scan_inv_def draw_step_present [OF v] s draw_init_def)
qed

lemma scan_inv_extend:
  assumes inv: "scan_inv c0 X r seen s" and pr: "present r i"
    and n: "1 \<le> length (filter (present r) seen)"
    and v: "Option.bind (item_at r i) senkou1 = Some v1" "Option.bind (item_at r i) senkou2 = Some v2"
    and same: "currentIsBullish s = Some (v2 \<le> v1)"
  shows "scan_inv c0 X r (seen @ [i]) (draw_step X Y r s i)"
proof -
  let ?n = "length (filter (present r) seen)"
  have step: "draw_step X Y r s i =
        s\<lparr>points1 := points1 s @ [\<lparr>coord_x = X i, coord_y = Y v1\<rparr>],
          points2 := points2 s @ [\<lparr>coord_x = X i, coord_y = Y v2\<rparr>],
          currentIsBullish := Some (v2 \<le> v1)\<rparr>"
    using same by (simp add: draw_step_present [OF v])
  from inv have xs: "map coord_x (points1 s) = map coord_x (points2 s)"
    and cover: "path_xs (ctx s) \<union> coord_x ` set (points1 s) =
                path_xs c0 \<union> X ` set (filter (present r) seen)"
    by (simp_all add: scan_inv_def Let_def)
  from inv n have len: "1 \<le> length (points1 s)"
    by (cases "?n = 1") (simp_all add: scan_inv_def Let_def)
  have cover': "path_xs (ctx s) \<union> coord_x ` set (points1 s @ [\<lparr>coord_x = X i, coord_y = Y v1\<rparr>]) =
                path_xs c0 \<union> X ` insert i (set (filter (present r) seen))"
    using cover by auto
  from n have seen: "filter (present r) seen \<noteq> []" by auto
  show ?thesis
    unfolding scan_inv_def Let_def step
    using pr seen xs len cover' by simp
qed

lemma scan_inv_flip:
  assumes inv: "scan_inv c0 X r seen s" and pr: "present r i"
    and n: "1 \<le> length (filter (present r) seen)"
    and v: "Option.bind (item_at r i) senkou1 = Some v1" "Option.bind (item_at r i) senkou2 = Some v2"
    and flip: "currentIsBullish s \<noteq> Some (v2 \<le> v1)"
  shows "scan_inv c0 X r (seen @ [i]) (draw_step X Y r s i)"
proof -
  let ?n = "length (filter (present r) seen)"
  let ?c = "drawCloudPolygon (ctx s) (points1 s) (points2 s) (cloudColor (currentIsBullish s))"
  from inv have xs: "map coord_x (points1 s) = map coord_x (points2 s)"
    and cover: "path_xs (ctx s) \<union> coord_x ` set (points1 s) =
                path_xs c0 \<union> X ` set (filter (present r) seen)"
    by (simp_all add: scan_inv_def Let_def)
  from inv n have len: "1 \<le> length (points1 s)" and cur: "currentIsBullish s \<noteq> None"
    by (cases "?n = 1"; simp add: scan_inv_def Let_def)+
  from xs have len2: "length (points2 s) = length (points1 s)"
    by (metis length_map)
  from len len2 have ne: "points1 s \<noteq> []" "points2 s \<noteq> []" by auto
  have lastx: "coord_x (last (points1 s)) = coord_x (last (points2 s))"
    using xs ne by (metis last_map)
  have sets: "coord_x ` set (points2 s) = coord_x ` set (points1 s)"
    using xs by (metis set_map)
  have step: "draw_step X Y r s i =
        s\<lparr>ctx := ?c,
          points1 := [last (points1 s), \<lparr>coord_x = X i, coord_y = Y v1\<rparr>],
          points2 := [last (points2 s), \<lparr>coord_x = X i, coord_y = Y v2\<rparr>],
          currentIsBullish := Some (v2 \<le> v1)\<rparr>"
    using flip cur ne by (simp add: draw_step_present [OF v])
  have lastin: "coord_x (last (points1 s)) \<in> coord_x ` set (points1 s)"
    using ne by simp
  have one: "length (points1 s) < 2 \<Longrightarrow> coord_x ` set (points1 s) = {coord_x (last (points1 s))}"
  proof -
    assume "length (points1 s) < 2"
    with len have "length (points1 s) = 1" by simp
    then obtain q where "points1 s = [q]" by (cases "points1 s") auto
    then show ?thesis by simp
  qed
  have "path_xs ?c \<union> {coord_x (last (points1 s))} = path_xs (ctx s) \<union> coord_x ` set (points1 s)"
    using lastin one by (auto simp: path_xs_drawCloudPolygon sets)
  with cover have cover': "path_xs ?c \<union> coord_x ` set [last (points1 s), \<lparr>coord_x = X i, coord_y = Y v1\<rparr>] =
                path_xs c0 \<union> X ` insert i (set (filter (present r) seen))"
    by auto
  from n have seen: "filter (present r) seen \<noteq> []" by auto
  show ?thesis
    unfolding scan_inv_def Let_def step
    using pr seen lastx cover' by simp
qed

lemma scan_inv_step:
  assumes "scan_inv c0 X r seen s"
  shows "scan_inv c0 X r (seen @ [i]) (draw_step X Y r s i)"
proof (cases "present r i")
  case False
  with assms show ?thesis by (rule scan_inv_absent)
next
  case True
  then obtain v1 v2 where v: "Option.bind (item_at r i) senkou1 = Some v1"
    "Option.bind (item_at r i) senkou2 = Some v2" by (rule present_cases)
  show ?thesis
  proof (cases "length (filter (present r) seen) = 0")
    case True
    with assms \<open>present r i\<close> show ?thesis by (rule scan_inv_first)
  next
    case False
    then have n: "1 \<le> length (filter (present r) seen)"
      by (cases "filter (present r) seen") simp_all
    show ?thesis
    proof (cases "currentIsBullish s = Some (v2 \<le> v1)")
      case True
      with assms \<open>present r i\<close> n v show ?thesis by (rule scan_inv_extend)
    next
      case False
      with assms \<open>present r i\<close> n v show ?thesis by (rule scan_inv_flip)
    qed
  qed
qed

lemma scan_inv_init: "scan_inv c0 X r [] (draw_init c0)"
  by (simp add: scan_inv_def draw_init_def)

lemma scan_inv_foldl: "scan_inv c0 X r seen (foldl (draw_step X Y r) (draw_init c0) seen)"
proof (induction seen rule: rev_induct)
  case Nil
  show ?case by (simp add: scan_inv_init)
next
  case (snoc i seen)
  then show ?case by (simp add: scan_inv_step)
qed

lemma scan_inv_draw_loop:
  "scan_inv c0 X r [from..to - 1] (draw_loop X Y r from to (draw_init c0))"
  by (simp add: draw_loop_foldl scan_inv_foldl)

lemma draw_loop_snoc:
  assumes "from \<le> i"
  shows "draw_loop X Y r from (i + 1) s = draw_step X Y r (draw_loop X Y r from i s) i"
proof -
  from assms have "[from..i + 1 - 1] = [from..i - 1] @ [i]"
    using upto_rec2 [of "from" i] by simp
  then show ?thesis by (simp add: draw_loop_foldl)
qed

lemma seen_visible:
  "set (filter (present r) [from..to - 1]) = visible_present r from to"
  by (auto simp: visible_present_def)

lemma seen_card:
  "length (filter (present r) [from..to - 1]) = card (visible_present r from to)"
proof -
  have "distinct (filter (present r) [from..to - 1])" by simp
  then have "card (set (filter (present r) [from..to - 1])) = length (filter (present r) [from..to - 1])"
    by (rule distinct_card)
  then show ?thesis by (simp only: seen_visible)
qed

lemma scan_lengths:
  "length (points1 (draw_loop X Y r from to (draw_init c))) =
   length (points2 (draw_loop X Y r from to (draw_init c)))"
proof -
  have "scan_inv c X r [from..to - 1] (draw_loop X Y r from to (draw_init c))"
    by (rule scan_inv_draw_loop)
  then have "map coord_x (points1 (draw_loop X Y r from to (draw_init c))) =
             map coord_x (points2 (draw_loop X Y r from to (draw_init c)))"
    by (simp add: scan_inv_def Let_def)
  then show ?thesis by (metis length_map)
qed

lemma scan_open_segment:
  assumes "currentIsBullish (draw_loop X Y r from to (draw_init c)) \<noteq> None"
  shows "points1 (draw_loop X Y r from to (draw_init c)) \<noteq> [] \<and>
         points2 (draw_loop X Y r from to (draw_init c)) \<noteq> []"
proof -
  let ?s = "draw_loop X Y r from to (draw_init c)"
  let ?n = "length (filter (present r) [from..to - 1])"
  have inv: "scan_inv c X r [from..to - 1] ?s" by (rule scan_inv_draw_loop)
  have "?n \<noteq> 0"
  proof
    assume "?n = 0"
    with inv have "?s = draw_init c" by (simp add: scan_inv_def Let_def)
    with assms show False by (simp add: draw_init_def)
  qed
  then have "?n = 1 \<or> 2 \<le> ?n" by arith
  with inv have "1 \<le> length (points1 ?s)" by (auto simp: scan_inv_def Let_def)
  with scan_lengths [of X Y r "from" to c] show ?thesis by auto
qed

section \<open>Evaluating the renderer on concrete records\<close>

lemmas draw_eval =
  draw_def draw_loop.simps draw_step_def draw_init_def item_at_def drawCloudPolygon_def
  cloudColor_def Let_def sample_result_def

lemma present_sample:
  "\<not> present sample_result 0" "\<not> present sample_result 1"
  "present sample_result 2" "present sample_result 3"
  by (simp_all add: present_def item_at_def sample_result_def)

lemma visible_sample:
  "visible_present sample_result 0 4 = {2, 3}"
  "visible_present sample_result 0 3 = {2}"
proof -
  have u: "[0..4 - 1] = [0, 1, 2, 3::int]" "[0..3 - 1] = [0, 1, 2::int]"
    by (simp_all add: upto_rec1)
  show "visible_present sample_result 0 4 = {2, 3}"
    unfolding seen_visible [symmetric] u by (simp add: present_sample)
  show "visible_present sample_result 0 3 = {2}"
    unfolding seen_visible [symmetric] u by (simp add: present_sample)
qed

lemma scan_flip_4:
  "draw_loop real_of_int id flip_result 0 4 (draw_init []) =
     \<lparr>ctx = [],
      points1 = [\<lparr>coord_x = 2, coord_y = 19 / 2\<rparr>, \<lparr>coord_x = 3, coord_y = 19 / 2\<rparr>],
      points2 = [\<lparr>coord_x = 2, coord_y = 17 / 2\<rparr>, \<lparr>coord_x = 3, coord_y = 19 / 2\<rparr>],
      currentIsBullish = Some True\<rparr>"
  by (simp add: draw_eval flip_result_def)

section \<open>Claims about the calculator\<close>

text \<open>
  C1. The claim reads: whenever one of the four parameters is not positive, \<^verbatim>\<open>calc\<close>
  fails with an \<^verbatim>\<open>InvalidParameter\<close> error before computing anything. The code
  has no such check. With one bar, periods 1 and displacement 0 it returns a result.
\<close>

theorem calc_zero_displacement_returns:
  "calc [\<lparr>high = 10, low = 5, close = 7\<rparr>]
        \<lparr>tenkanPeriod = 1, kijunPeriod = 1, senkouBPeriod = 1, displacement = 0\<rparr> =
   Inr [\<lparr>tenkan = Some (15 / 2), kijun = Some (15 / 2), chikou = Some 7,
         senkou1 = Some (15 / 2), senkou2 = Some (15 / 2)\<rparr>]"
  by (simp add: calc_eval)

text \<open>
  C1, as the code has it, for whole-number parameters. \<^verbatim>\<open>calc\<close> has no check
  of its parameters and no \<^verbatim>\<open>InvalidParameter\<close> error. On an empty bar sequence
  it returns \<open>max(0, displacement)\<close> all-absent records whatever the parameters are.
  On a non-empty one it returns a result when the three periods are at least 1 and the
  displacement is at least 0, and otherwise it fails with the \<^verbatim>\<open>TypeError\<close> of
  an array read outside its range.
\<close>

theorem calc_no_parameter_check:
  "(bars = [] \<longrightarrow> calc bars params = Inr (replicate (nat (displacement params)) emptyPoint)) \<and>
   (bars \<noteq> [] \<longrightarrow>
      (if 1 \<le> tenkanPeriod params \<and> 1 \<le> kijunPeriod params \<and>
          1 \<le> senkouBPeriod params \<and> 0 \<le> displacement params
       then \<exists>r. calc bars params = Inr r
       else calc bars params = Inl TypeError))"
proof (intro conjI impI)
  assume "bars = []"
  then show "calc bars params = Inr (replicate (nat (displacement params)) emptyPoint)"
    by (simp add: calc_empty)
next
  assume ne: "bars \<noteq> []"
  show "if 1 \<le> tenkanPeriod params \<and> 1 \<le> kijunPeriod params \<and>
          1 \<le> senkouBPeriod params \<and> 0 \<le> displacement params
       then \<exists>r. calc bars params = Inr r
       else calc bars params = Inl TypeError"
  proof (cases "1 \<le> tenkanPeriod params \<and> 1 \<le> kijunPeriod params \<and>
          1 \<le> senkouBPeriod params \<and> 0 \<le> displacement params")
    case True
    then have "\<exists>r. calc bars params = Inr r"
      using calc_closed_form [of params bars] by simp
    with True show ?thesis by simp
  next
    case False
    with ne have "calc bars params = Inl TypeError" by (rule calc_fails)
    with False show ?thesis by simp
  qed
qed

theorem calc_no_parameter_check_witness:
  "calc [] \<lparr>tenkanPeriod = 0, kijunPeriod = 0, senkouBPeriod = 0, displacement = - 3\<rparr> = Inr [] \<and>
   (\<exists>r. calc sample_bars
           \<lparr>tenkanPeriod = 1, kijunPeriod = 2, senkouBPeriod = 2, displacement = 0\<rparr> = Inr r) \<and>
   calc sample_bars
     \<lparr>tenkanPeriod = 0, kijunPeriod = 2, senkouBPeriod = 2, displacement = 1\<rparr> = Inl TypeError"
  using
    calc_no_parameter_check [of "[]"
      "\<lparr>tenkanPeriod = 0, kijunPeriod = 0, senkouBPeriod = 0, displacement = - 3\<rparr>"]
    calc_no_parameter_check [of sample_bars
      "\<lparr>tenkanPeriod = 1, kijunPeriod = 2, senkouBPeriod = 2, displacement = 0\<rparr>"]
    calc_no_parameter_check [of sample_bars
      "\<lparr>tenkanPeriod = 0, kijunPeriod = 2, senkouBPeriod = 2, displacement = 1\<rparr>"]
  by (simp add: sample_bars_def)

text \<open>
  C3. For valid parameters \<^verbatim>\<open>calc\<close> returns, and at every bar index \<open>i\<close> the
  tenkan field is present exactly when \<open>i \<ge> tenkanPeriod - 1\<close>, and is then the
  midpoint of the highest high and the lowest low over the bars
  \<open>[max(0, i - tenkanPeriod + 1), i]\<close>; the same for kijun with \<open>kijunPeriod\<close>. At
  the output indices from the number of bars on, both are absent.
\<close>

theorem calc_tenkan_kijun:
  "valid_params params \<Longrightarrow>
   \<exists>r. calc bars params = Inr r \<and>
       (\<forall>i<length bars.
          tenkan (r ! i) =
            (if tenkanPeriod params - 1 \<le> int i
             then Some (midprice bars i (tenkanPeriod params)) else None) \<and>
          kijun (r ! i) =
            (if kijunPeriod params - 1 \<le> int i
             then Some (midprice bars i (kijunPeriod params)) else None)) \<and>
       (\<forall>j<length r. length bars \<le> j \<longrightarrow> tenkan (r ! j) = None \<and> kijun (r ! j) = None)"
proof -
  assume v: "valid_params params"
  show ?thesis
    unfolding calc_valid [OF v]
    by (simp add: partial_point_def Let_def)
qed

theorem calc_tenkan_kijun_witness:
  "valid_params sample_params \<and>
   (\<exists>r. calc sample_bars sample_params = Inr r \<and>
        tenkan (r ! 1) = Some 9 \<and> kijun (r ! 1) = Some (17 / 2) \<and>
        kijun (r ! 0) = None \<and> tenkan (r ! 3) = None \<and> kijun (r ! 3) = None)"
proof -
  from calc_tenkan_kijun [OF valid_sample_params, of sample_bars]
  obtain r where r: "calc sample_bars sample_params = Inr r"
    and a: "\<forall>i<length sample_bars.
          tenkan (r ! i) =
            (if tenkanPeriod sample_params - 1 \<le> int i
             then Some (midprice sample_bars i (tenkanPeriod sample_params)) else None) \<and>
          kijun (r ! i) =
            (if kijunPeriod sample_params - 1 \<le> int i
             then Some (midprice sample_bars i (kijunPeriod sample_params)) else None)"
    and b: "\<forall>j<length r. length sample_bars \<le> j \<longrightarrow>
          tenkan (r ! j) = None \<and> kijun (r ! j) = None"
    by blast
  from r have len: "length r = 4" by (auto simp: calc_sample sample_result_def)
  have l: "length sample_bars = 3" by (simp add: sample_bars_def)
  from a [rule_format, of 1] a [rule_format, of 0] b [rule_format, of 3]
  have "tenkan (r ! 1) = Some 9 \<and> kijun (r ! 1) = Some (17 / 2) \<and>
        kijun (r ! 0) = None \<and> tenkan (r ! 3) = None \<and> kijun (r ! 3) = None"
    by (simp add: len l sample_params_def midprice_sample)
  with r valid_sample_params show ?thesis by blast
qed

text \<open>
  C4. For valid parameters \<^verbatim>\<open>calc\<close> returns, and for every bar index \<open>i\<close> span A
  (\<open>senkou1\<close>) at output index \<open>i + displacement\<close> is present exactly when both
  \<open>tenkan[i]\<close> and \<open>kijun[i]\<close> are present, and is then their average.
\<close>

theorem calc_senkou1:
  "valid_params params \<Longrightarrow>
   \<exists>r. calc bars params = Inr r \<and>
       (\<forall>i<length bars.
          (senkou1 (r ! (i + nat (displacement params))) \<noteq> None \<longleftrightarrow>
             tenkan (r ! i) \<noteq> None \<and> kijun (r ! i) \<noteq> None) \<and>
          (\<forall>t k. tenkan (r ! i) = Some t \<longrightarrow> kijun (r ! i) = Some k \<longrightarrow>
             senkou1 (r ! (i + nat (displacement params))) = Some ((t + k) / 2)))"
proof -
  assume v: "valid_params params"
  let ?d = "nat (displacement params)"
  let ?r = "map (partial_point params bars (length bars) (length bars) (length bars)
                (length bars) (length bars)) [0..<length bars + ?d]"
  let ?both = "\<lambda>i. tenkanPeriod params - 1 \<le> int i \<and> kijunPeriod params - 1 \<le> int i"
  have t: "tenkan (?r ! i) = (if tenkanPeriod params - 1 \<le> int i
             then Some (midprice bars i (tenkanPeriod params)) else None)"
    and k: "kijun (?r ! i) = (if kijunPeriod params - 1 \<le> int i
             then Some (midprice bars i (kijunPeriod params)) else None)"
    and a: "senkou1 (?r ! (i + ?d)) = (if ?both i
             then Some ((midprice bars i (tenkanPeriod params)
                         + midprice bars i (kijunPeriod params)) / 2) else None)"
    if "i < length bars" for i
    using that by (simp_all add: partial_point_def Let_def)
  have "(senkou1 (?r ! (i + ?d)) \<noteq> None \<longleftrightarrow>
             tenkan (?r ! i) \<noteq> None \<and> kijun (?r ! i) \<noteq> None) \<and>
          (\<forall>t k. tenkan (?r ! i) = Some t \<longrightarrow> kijun (?r ! i) = Some k \<longrightarrow>
             senkou1 (?r ! (i + ?d)) = Some ((t + k) / 2))"
    if i: "i < length bars" for i
    unfolding t [OF i] k [OF i] a [OF i] by (cases "?both i") auto
  with calc_valid [OF v] show ?thesis by blast
qed

theorem calc_senkou1_witness:
  "valid_params sample_params \<and>
   (\<exists>r. calc sample_bars sample_params = Inr r \<and>
        tenkan (r ! 1) = Some 9 \<and> kijun (r ! 1) = Some (17 / 2) \<and>
        senkou1 (r ! 2) = Some ((9 + 17 / 2) / 2) \<and>
        kijun (r ! 0) = None \<and> senkou1 (r ! 1) = None)"
proof -
  from calc_senkou1 [OF valid_sample_params, of sample_bars]
  obtain r where r: "calc sample_bars sample_params = Inr r"
    and a: "\<forall>i<length sample_bars.
          (senkou1 (r ! (i + nat (displacement sample_params))) \<noteq> None \<longleftrightarrow>
             tenkan (r ! i) \<noteq> None \<and> kijun (r ! i) \<noteq> None) \<and>
          (\<forall>t k. tenkan (r ! i) = Some t \<longrightarrow> kijun (r ! i) = Some k \<longrightarrow>
             senkou1 (r ! (i + nat (displacement sample_params))) = Some ((t + k) / 2))"
    by blast
  from r have rs: "r = sample_result" by (simp add: calc_sample)
  have l: "length sample_bars = 3" by (simp add: sample_bars_def)
  have tk: "tenkan (r ! 1) = Some 9" "kijun (r ! 1) = Some (17 / 2)" "kijun (r ! 0) = None"
    by (simp_all add: rs sample_result_def)
  have i: "(1::nat) < length sample_bars" "(0::nat) < length sample_bars" by (simp_all add: l)
  from a i(1) have "\<forall>t k. tenkan (r ! 1) = Some t \<longrightarrow> kijun (r ! 1) = Some k \<longrightarrow>
             senkou1 (r ! (1 + nat (displacement sample_params))) = Some ((t + k) / 2)"
    by blast
  with tk have s: "senkou1 (r ! (1 + nat (displacement sample_params))) = Some ((9 + 17 / 2) / 2)"
    by blast
  from a i(2) have "senkou1 (r ! (0 + nat (displacement sample_params))) \<noteq> None \<longleftrightarrow>
             tenkan (r ! 0) \<noteq> None \<and> kijun (r ! 0) \<noteq> None"
    by blast
  with tk have n: "senkou1 (r ! (0 + nat (displacement sample_params))) = None"
    by simp
  from s n have "senkou1 (r ! 2) = Some ((9 + 17 / 2) / 2) \<and> senkou1 (r ! 1) = None"
    by (simp add: sample_params_def numeral_2_eq_2)
  with r tk valid_sample_params show ?thesis by blast
qed

text \<open>
  C5. For valid parameters \<^verbatim>\<open>calc\<close> returns, and for every bar index
  \<open>i \<ge> displacement\<close> the chikou field at output index \<open>i - displacement\<close> is the
  close of bar \<open>i\<close>; at every output index \<open>j\<close> with \<open>j + displacement\<close> not below
  the number of bars, chikou is absent.
\<close>

theorem calc_chikou:
  "valid_params params \<Longrightarrow>
   \<exists>r. calc bars params = Inr r \<and>
       (\<forall>i<length bars. nat (displacement params) \<le> i \<longrightarrow>
          chikou (r ! (i - nat (displacement params))) = Some (close (bars ! i))) \<and>
       (\<forall>j<length r. length bars \<le> j + nat (displacement params) \<longrightarrow> chikou (r ! j) = None)"
proof -
  assume v: "valid_params params"
  show ?thesis
    unfolding calc_valid [OF v]
    by (simp add: partial_point_def Let_def)
qed

theorem calc_chikou_witness:
  "valid_params sample_params \<and>
   (\<exists>r. calc sample_bars sample_params = Inr r \<and>
        chikou (r ! 0) = Some 8 \<and> chikou (r ! 1) = Some 9 \<and>
        chikou (r ! 2) = None \<and> chikou (r ! 3) = None)"
proof -
  from calc_chikou [OF valid_sample_params, of sample_bars]
  obtain r where r: "calc sample_bars sample_params = Inr r"
    and a: "\<forall>i<length sample_bars. nat (displacement sample_params) \<le> i \<longrightarrow>
          chikou (r ! (i - nat (displacement sample_params))) = Some (close (sample_bars ! i))"
    and b: "\<forall>j<length r. length sample_bars \<le> j + nat (displacement sample_params) \<longrightarrow>
          chikou (r ! j) = None"
    by blast
  from r have len: "length r = 4" by (auto simp: calc_sample sample_result_def)
  have l: "length sample_bars = 3" by (simp add: sample_bars_def)
  have d: "nat (displacement sample_params) = 1" by (simp add: sample_params_def)
  from a [rule_format, of 1] a [rule_format, of 2]
  have "chikou (r ! 0) = Some 8 \<and> chikou (r ! 1) = Some 9"
    by (simp add: l d sample_bars_def)
  moreover from b [rule_format, of 2] b [rule_format, of 3]
  have "chikou (r ! 2) = None \<and> chikou (r ! 3) = None"
    by (simp add: l d len)
  ultimately show ?thesis using r valid_sample_params by blast
qed

text \<open>
  C6. For valid parameters and \<open>L\<close> bars \<^verbatim>\<open>calc\<close> returns a sequence of exactly
  \<open>L + displacement\<close> records (a list of records has a record at each of its indices);
  for no bars it is \<open>displacement\<close> all-absent records.
\<close>

theorem calc_output_length:
  "valid_params params \<Longrightarrow>
   \<exists>r. calc bars params = Inr r \<and>
       int (length r) = int (length bars) + displacement params \<and>
       (bars = [] \<longrightarrow> r = replicate (nat (displacement params)) emptyPoint)"
proof -
  assume v: "valid_params params"
  let ?r = "map (partial_point params bars (length bars) (length bars) (length bars)
                (length bars) (length bars)) [0..<length bars + nat (displacement params)]"
  have len: "int (length ?r) = int (length bars) + displacement params"
    using v by (simp add: valid_params_def)
  have empty: "bars = [] \<Longrightarrow> ?r = replicate (nat (displacement params)) emptyPoint"
    by (rule nth_equalityI) (simp_all add: partial_point_def emptyPoint_def)
  from calc_valid [OF v] len empty show ?thesis by blast
qed

theorem calc_output_length_witness:
  "valid_params sample_params \<and>
   (\<exists>r. calc sample_bars sample_params = Inr r \<and> length r = 4) \<and>
   (\<exists>r. calc [] sample_params = Inr r \<and> r = [emptyPoint])"
proof -
  have d: "displacement sample_params = 1" by (simp add: sample_params_def)
  from calc_output_length [OF valid_sample_params, of sample_bars]
  have 1: "\<exists>r. calc sample_bars sample_params = Inr r \<and> length r = 4"
    by (auto simp: d sample_bars_def)
  from calc_output_length [OF valid_sample_params, of "[]"]
  have 2: "\<exists>r. calc [] sample_params = Inr r \<and> r = [emptyPoint]"
    by (simp add: d)
  from 1 2 valid_sample_params show ?thesis by blast
qed

text \<open>
  C9. \<^verbatim>\<open>calc\<close> never writes to the bars: whenever it returns, the bar sequence
  it leaves behind is the one it was given, element for element and of the same length;
  and for valid parameters it does return.
\<close>

theorem calc_keeps_bars:
  "(\<forall>st. calc_run bars params = Inr st \<longrightarrow> st_dataList st = bars) \<and>
   (valid_params params \<longrightarrow>
      (\<exists>st. calc_run bars params = Inr st \<and> calc bars params = Inr (st_result st)))"
proof (intro conjI allI impI)
  fix st assume "calc_run bars params = Inr st"
  then show "st_dataList st = bars" by (rule calc_run_frame)
next
  assume "valid_params params"
  then have "calc_run bars params =
         Inr (partial_state params bars (length bars) (length bars) (length bars)
                (length bars) (length bars))"
    by (intro calc_run_closed_form) (simp_all add: valid_params_def)
  then show "\<exists>st. calc_run bars params = Inr st \<and> calc bars params = Inr (st_result st)"
    by (simp add: calc_def bind_err_def)
qed

theorem calc_keeps_bars_witness:
  "valid_params sample_params \<and>
   (\<exists>st. calc_run sample_bars sample_params = Inr st \<and> st_dataList st = sample_bars \<and>
         calc sample_bars sample_params = Inr (st_result st))"
  using calc_keeps_bars [of sample_bars sample_params] valid_sample_params
  by auto

section \<open>Claims about the renderer\<close>

text \<open>
  C2. The claim reads: the horizontal positions of the rendered segments are exactly
  those of the present indices of the visible range. When the range holds a single
  present index the open segment has one point and is not rendered. For the sample
  result and the range \<open>[0, 3)\<close>, index 2 is present and nothing is drawn.
\<close>

theorem single_present_index_not_drawn:
  "calc sample_bars sample_params = Inr sample_result \<and>
   visible_present sample_result 0 3 = {2} \<and>
   fst (draw [] real_of_int id sample_result 0 3) = []"
  by (simp add: calc_sample visible_sample) (simp add: draw_eval)

text \<open>
  C2, as the code has it. For every result sequence, visible range and pair of pixel
  conversions: when the number of present indices in the range is not one, the
  horizontal positions that \<^verbatim>\<open>draw\<close> adds to the context are exactly those of the
  present indices of the range (none dropped, none added for an absent index); when it
  is one, \<^verbatim>\<open>draw\<close> leaves the context as it was.
\<close>

theorem draw_covers_present:
  "(card (visible_present result from to) \<noteq> 1 \<longrightarrow>
      path_xs (fst (draw c xToPixel yToPixel result from to)) =
        path_xs c \<union> xToPixel ` visible_present result from to) \<and>
   (card (visible_present result from to) = 1 \<longrightarrow>
      fst (draw c xToPixel yToPixel result from to) = c)"
proof -
  let ?s = "draw_loop xToPixel yToPixel result from to (draw_init c)"
  let ?n = "card (visible_present result from to)"
  have "scan_inv c xToPixel result [from..to - 1] ?s" by (rule scan_inv_draw_loop)
  then have inv: "map coord_x (points1 ?s) = map coord_x (points2 ?s) \<and>
      (?n = 0 \<longrightarrow> ?s = draw_init c) \<and>
      (?n = 1 \<longrightarrow> length (points1 ?s) = 1 \<and> ctx ?s = c \<and> currentIsBullish ?s \<noteq> None) \<and>
      (2 \<le> ?n \<longrightarrow> 2 \<le> length (points1 ?s) \<and> currentIsBullish ?s \<noteq> None) \<and>
      path_xs (ctx ?s) \<union> coord_x ` set (points1 ?s) =
        path_xs c \<union> xToPixel ` visible_present result from to"
    unfolding scan_inv_def Let_def seen_card seen_visible .
  from inv have xs: "map coord_x (points1 ?s) = map coord_x (points2 ?s)" by blast
  from inv have zero: "?n = 0 \<Longrightarrow> ?s = draw_init c" by blast
  from inv have one: "?n = 1 \<Longrightarrow> length (points1 ?s) = 1 \<and> ctx ?s = c" by blast
  from inv have more: "2 \<le> ?n \<Longrightarrow> 2 \<le> length (points1 ?s) \<and> currentIsBullish ?s \<noteq> None"
    by blast
  from inv have cover: "path_xs (ctx ?s) \<union> coord_x ` set (points1 ?s) =
                path_xs c \<union> xToPixel ` visible_present result from to"
    by blast
  from xs have sets: "coord_x ` set (points2 ?s) = coord_x ` set (points1 ?s)"
    by (metis set_map)
  have a: "path_xs (fst (draw c xToPixel yToPixel result from to)) =
        path_xs c \<union> xToPixel ` visible_present result from to" if "?n \<noteq> 1"
  proof (cases "?n = 0")
    case True
    from zero [OF True] cover show ?thesis
      by (simp add: draw_def Let_def draw_init_def)
  next
    case False
    with that have "2 \<le> ?n" by arith
    from more [OF this] have
      "fst (draw c xToPixel yToPixel result from to) =
         drawCloudPolygon (ctx ?s) (points1 ?s) (points2 ?s) (cloudColor (currentIsBullish ?s))"
      and "\<not> length (points1 ?s) < 2"
      by (simp_all add: draw_def Let_def)
    then have "path_xs (fst (draw c xToPixel yToPixel result from to)) =
         path_xs (ctx ?s) \<union> coord_x ` set (points1 ?s) \<union> coord_x ` set (points2 ?s)"
      by (simp only: path_xs_drawCloudPolygon if_False)
    also have "\<dots> = path_xs (ctx ?s) \<union> coord_x ` set (points1 ?s)"
      by (simp only: sets Un_assoc Un_absorb)
    finally show ?thesis by (simp only: cover)
  qed
  have b: "fst (draw c xToPixel yToPixel result from to) = c" if "?n = 1"
    using one [OF that] by (simp add: draw_def Let_def)
  from a b show ?thesis by blast
qed

theorem draw_covers_present_witness:
  "card (visible_present sample_result 0 4) \<noteq> 1 \<and>
   path_xs (fst (draw [] real_of_int id sample_result 0 4)) = {2, 3} \<and>
   card (visible_present sample_result 0 3) = 1 \<and>
   fst (draw [] real_of_int id sample_result 0 3) = []"
  using draw_covers_present [of sample_result 0 4 "[]" real_of_int id]
    draw_covers_present [of sample_result 0 3 "[]" real_of_int id]
  by (simp add: visible_sample path_xs_def)

text \<open>
  C7. At a present index the flag becomes \<open>spanA \<ge> spanB\<close>, so a tie is bullish.
  When that differs from the flag of the open segment, the open segment is handed to
  \<^verbatim>\<open>drawCloudPolygon\<close> and the next segment starts, on each edge, with the last point
  of the one just closed, followed by the point of the current index.
\<close>

theorem sign_change_shares_boundary:
  assumes "from \<le> i"
    and "Option.bind (item_at result i) senkou1 = Some v1"
    and "Option.bind (item_at result i) senkou2 = Some v2"
    and "s = draw_loop xToPixel yToPixel result from i (draw_init c)"
    and "s' = draw_loop xToPixel yToPixel result from (i + 1) (draw_init c)"
  shows "currentIsBullish s' = Some (v1 \<ge> v2) \<and>
         (currentIsBullish s \<noteq> None \<and> currentIsBullish s \<noteq> Some (v1 \<ge> v2) \<longrightarrow>
            points1 s \<noteq> [] \<and> points2 s \<noteq> [] \<and>
            ctx s' = drawCloudPolygon (ctx s) (points1 s) (points2 s)
                       (cloudColor (currentIsBullish s)) \<and>
            points1 s' = [last (points1 s), \<lparr>coord_x = xToPixel i, coord_y = yToPixel v1\<rparr>] \<and>
            points2 s' = [last (points2 s), \<lparr>coord_x = xToPixel i, coord_y = yToPixel v2\<rparr>])"
proof -
  have step: "s' = draw_step xToPixel yToPixel result s i"
    using assms(1,4,5) by (simp add: draw_loop_snoc)
  have ne: "points1 s \<noteq> [] \<and> points2 s \<noteq> []" if "currentIsBullish s \<noteq> None"
    using that scan_open_segment [of xToPixel yToPixel result "from" i c] assms(4) by simp
  show ?thesis
    unfolding step draw_step_present [OF assms(2,3)]
    using ne by auto
qed

theorem sign_change_shares_boundary_witness:
  "calc flip_bars flip_params = Inr flip_result \<and>
   currentIsBullish (draw_loop real_of_int id flip_result 0 4 (draw_init [])) = Some True \<and>
   points1 (draw_loop real_of_int id flip_result 0 4 (draw_init [])) =
     [\<lparr>coord_x = 2, coord_y = 19 / 2\<rparr>, \<lparr>coord_x = 3, coord_y = 19 / 2\<rparr>] \<and>
   points2 (draw_loop real_of_int id flip_result 0 4 (draw_init [])) =
     [\<lparr>coord_x = 2, coord_y = 17 / 2\<rparr>, \<lparr>coord_x = 3, coord_y = 19 / 2\<rparr>] \<and>
   ctx (draw_loop real_of_int id flip_result 0 5 (draw_init [])) =
     [BeginPath, MoveTo 2 (19 / 2), LineTo 3 (19 / 2), LineTo 3 (19 / 2), LineTo 2 (17 / 2),
      ClosePath, FillStyle bullishColor, Fill] \<and>
   points1 (draw_loop real_of_int id flip_result 0 5 (draw_init [])) =
     [\<lparr>coord_x = 3, coord_y = 19 / 2\<rparr>, \<lparr>coord_x = 4, coord_y = 11 / 2\<rparr>] \<and>
   points2 (draw_loop real_of_int id flip_result 0 5 (draw_init [])) =
     [\<lparr>coord_x = 3, coord_y = 19 / 2\<rparr>, \<lparr>coord_x = 4, coord_y = 15 / 2\<rparr>] \<and>
   currentIsBullish (draw_loop real_of_int id flip_result 0 5 (draw_init [])) = Some False \<and>
   fst (draw [] real_of_int id flip_result 0 5) =
     [BeginPath, MoveTo 2 (19 / 2), LineTo 3 (19 / 2), LineTo 3 (19 / 2), LineTo 2 (17 / 2),
      ClosePath, FillStyle bullishColor, Fill,
      BeginPath, MoveTo 3 (19 / 2), LineTo 4 (11 / 2), LineTo 4 (15 / 2), LineTo 3 (19 / 2),
      ClosePath, FillStyle bearishColor, Fill]"
proof -
  let ?s3 = "draw_loop real_of_int id flip_result 0 3 (draw_init [])"
  let ?s4 = "draw_loop real_of_int id flip_result 0 4 (draw_init [])"
  let ?s5 = "draw_loop real_of_int id flip_result 0 5 (draw_init [])"
  have tie1: "Option.bind (item_at flip_result 3) senkou1 = Some (19 / 2)"
    and tie2: "Option.bind (item_at flip_result 3) senkou2 = Some (19 / 2)"
    and low1: "Option.bind (item_at flip_result 4) senkou1 = Some (11 / 2)"
    and low2: "Option.bind (item_at flip_result 4) senkou2 = Some (15 / 2)"
    by (simp_all add: item_at_def flip_result_def)
  have s4: "draw_loop real_of_int id flip_result 0 (3 + 1) (draw_init []) = ?s4"
    and s5: "draw_loop real_of_int id flip_result 0 (4 + 1) (draw_init []) = ?s5"
    by simp_all
  have le: "(0::int) \<le> 3" "(0::int) \<le> 4" by simp_all
  from sign_change_shares_boundary [OF le(1) tie1 tie2 refl refl, of real_of_int id "[]"]
  have tie: "currentIsBullish ?s4 = Some True"
    unfolding s4 by simp
  have prior: "points1 ?s4 =
      [\<lparr>coord_x = 2, coord_y = 19 / 2\<rparr>, \<lparr>coord_x = 3, coord_y = 19 / 2\<rparr>]"
    "points2 ?s4 =
      [\<lparr>coord_x = 2, coord_y = 17 / 2\<rparr>, \<lparr>coord_x = 3, coord_y = 19 / 2\<rparr>]"
    "ctx ?s4 = []"
    by (simp_all add: scan_flip_4)
  from sign_change_shares_boundary [OF le(2) low1 low2 refl refl, of real_of_int id "[]"]
  have flip: "currentIsBullish ?s5 = Some False \<and>
      ctx ?s5 = drawCloudPolygon [] (points1 ?s4) (points2 ?s4) (cloudColor (Some True)) \<and>
      points1 ?s5 = [last (points1 ?s4), \<lparr>coord_x = 4, coord_y = 11 / 2\<rparr>] \<and>
      points2 ?s5 = [last (points2 ?s4), \<lparr>coord_x = 4, coord_y = 15 / 2\<rparr>]"
    unfolding s5 by (simp add: tie prior)
  then have next_segment: "currentIsBullish ?s5 = Some False"
    "ctx ?s5 = [BeginPath, MoveTo 2 (19 / 2), LineTo 3 (19 / 2), LineTo 3 (19 / 2),
                LineTo 2 (17 / 2), ClosePath, FillStyle bullishColor, Fill]"
    "points1 ?s5 = [\<lparr>coord_x = 3, coord_y = 19 / 2\<rparr>, \<lparr>coord_x = 4, coord_y = 11 / 2\<rparr>]"
    "points2 ?s5 = [\<lparr>coord_x = 3, coord_y = 19 / 2\<rparr>, \<lparr>coord_x = 4, coord_y = 15 / 2\<rparr>]"
    by (simp_all add: prior drawCloudPolygon_def cloudColor_def)
  have whole: "fst (draw [] real_of_int id flip_result 0 5) =
     [BeginPath, MoveTo 2 (19 / 2), LineTo 3 (19 / 2), LineTo 3 (19 / 2), LineTo 2 (17 / 2),
      ClosePath, FillStyle bullishColor, Fill,
      BeginPath, MoveTo 3 (19 / 2), LineTo 4 (11 / 2), LineTo 4 (15 / 2), LineTo 3 (19 / 2),
      ClosePath, FillStyle bearishColor, Fill]"
    by (auto simp: draw_def Let_def next_segment drawCloudPolygon_def cloudColor_def)
  from calc_flip tie prior(1,2) next_segment whole show ?thesis by simp
qed

text \<open>
  C8. An index where a span is absent leaves the whole scan state as it is: context, both
  edge lists and flag; the scan after it is the scan before it. The context changes at
  an index only when that index is present, a segment is open and its flag differs from
  the sign at the index.
\<close>

theorem absent_index_keeps_segment:
  "(\<not> present result i \<longrightarrow> draw_step xToPixel yToPixel result s i = s) \<and>
   (\<not> present result i \<longrightarrow> from \<le> i \<longrightarrow>
      draw_loop xToPixel yToPixel result from (i + 1) (draw_init c) =
      draw_loop xToPixel yToPixel result from i (draw_init c)) \<and>
   (ctx (draw_step xToPixel yToPixel result s i) \<noteq> ctx s \<longrightarrow>
      present result i \<and> currentIsBullish s \<noteq> None \<and>
      (\<forall>v1 v2. Option.bind (item_at result i) senkou1 = Some v1 \<longrightarrow>
               Option.bind (item_at result i) senkou2 = Some v2 \<longrightarrow>
               currentIsBullish s \<noteq> Some (v1 \<ge> v2)))"
proof (intro conjI impI)
  assume "\<not> present result i"
  then show "draw_step xToPixel yToPixel result s i = s" by (rule draw_step_absent)
next
  assume "\<not> present result i" "from \<le> i"
  then show "draw_loop xToPixel yToPixel result from (i + 1) (draw_init c) =
      draw_loop xToPixel yToPixel result from i (draw_init c)"
    by (simp add: draw_loop_snoc draw_step_absent)
next
  assume ch: "ctx (draw_step xToPixel yToPixel result s i) \<noteq> ctx s"
  show pr: "present result i"
  proof (rule ccontr)
    assume "\<not> present result i"
    then have "draw_step xToPixel yToPixel result s i = s" by (rule draw_step_absent)
    with ch show False by simp
  qed
  from pr obtain w1 w2 where w: "Option.bind (item_at result i) senkou1 = Some w1"
    "Option.bind (item_at result i) senkou2 = Some w2" by (rule present_cases)
  from ch show "currentIsBullish s \<noteq> None"
    unfolding draw_step_present [OF w] by (auto split: if_splits)
  from ch show "\<forall>v1 v2. Option.bind (item_at result i) senkou1 = Some v1 \<longrightarrow>
               Option.bind (item_at result i) senkou2 = Some v2 \<longrightarrow>
               currentIsBullish s \<noteq> Some (v1 \<ge> v2)"
    unfolding draw_step_present [OF w] using w by (auto split: if_splits)
qed

theorem absent_index_keeps_segment_witness:
  "\<not> present sample_result 1 \<and>
   draw_step real_of_int id sample_result
     \<lparr>ctx = [], points1 = [\<lparr>coord_x = 0, coord_y = 1\<rparr>],
      points2 = [\<lparr>coord_x = 0, coord_y = 2\<rparr>], currentIsBullish = Some False\<rparr> 1 =
     \<lparr>ctx = [], points1 = [\<lparr>coord_x = 0, coord_y = 1\<rparr>],
      points2 = [\<lparr>coord_x = 0, coord_y = 2\<rparr>], currentIsBullish = Some False\<rparr> \<and>
   draw_loop real_of_int id sample_result 0 (1 + 1) (draw_init []) =
     draw_loop real_of_int id sample_result 0 1 (draw_init []) \<and>
   ctx (draw_step real_of_int id sample_result
     \<lparr>ctx = [], points1 = [\<lparr>coord_x = 0, coord_y = 1\<rparr>, \<lparr>coord_x = 1, coord_y = 1\<rparr>],
      points2 = [\<lparr>coord_x = 0, coord_y = 0\<rparr>, \<lparr>coord_x = 1, coord_y = 0\<rparr>],
      currentIsBullish = Some True\<rparr> 3) \<noteq> [] \<and>
   present sample_result 3"
proof -
  have a: "\<not> present sample_result 1"
    by (simp add: present_def item_at_def sample_result_def)
  have b: "ctx (draw_step real_of_int id sample_result
     \<lparr>ctx = [], points1 = [\<lparr>coord_x = 0, coord_y = 1\<rparr>, \<lparr>coord_x = 1, coord_y = 1\<rparr>],
      points2 = [\<lparr>coord_x = 0, coord_y = 0\<rparr>, \<lparr>coord_x = 1, coord_y = 0\<rparr>],
      currentIsBullish = Some True\<rparr> 3) \<noteq> []"
    by (simp add: draw_eval)
  from a b
    absent_index_keeps_segment [of sample_result 1 real_of_int id
      "\<lparr>ctx = [], points1 = [\<lparr>coord_x = 0, coord_y = 1\<rparr>],
        points2 = [\<lparr>coord_x = 0, coord_y = 2\<rparr>], currentIsBullish = Some False\<rparr>" 0 "[]"]
    absent_index_keeps_segment [of sample_result 3 real_of_int id
      "\<lparr>ctx = [], points1 = [\<lparr>coord_x = 0, coord_y = 1\<rparr>, \<lparr>coord_x = 1, coord_y = 1\<rparr>],
        points2 = [\<lparr>coord_x = 0, coord_y = 0\<rparr>, \<lparr>coord_x = 1, coord_y = 0\<rparr>],
        currentIsBullish = Some True\<rparr>" 0 "[]"]
  show ?thesis by simp
qed

text \<open>
  C10. After any scan from the initial state the two edge lists have the same length, so
  whenever \<^verbatim>\<open>drawCloudPolygon\<close> is called the test on the length of the first list
  holds of the second as well.
\<close>

theorem edge_lists_same_length:
  "length (points1 (draw_loop xToPixel yToPixel result from to (draw_init c))) =
   length (points2 (draw_loop xToPixel yToPixel result from to (draw_init c)))"
  by (rule scan_lengths)

end
